theory Spec2Isabelle
  imports Complex_Main "HOL-Library.AList" "HOL-Library.Sublist"
begin

section \<open>Intensity classification\<close>

text \<open>
  \<^verbatim>\<open>get_predicted_intensity(pga, pgv)\<close>: the cascade of comparisons of the source,
  branch for branch, including the final \<^verbatim>\<open>"?"\<close> branch. Python floats are read as
  real numbers; a chained comparison \<^verbatim>\<open>15 <= pgv < 30\<close> is the conjunction of its
  two halves.
\<close>

definition get_predicted_intensity :: "real \<Rightarrow> real \<Rightarrow> string" where
  "get_predicted_intensity pga pgv =
     (if pga < 0.8 then ''0''
      else if pga < 2.5 then ''1''
      else if pga < 8 then ''2''
      else if pga < 25 then ''3''
      else if pga < 80 then ''4''
      else
        (if pgv < 15 then ''4''
         else if 15 \<le> pgv \<and> pgv < 30 then ''5-''
         else if 30 \<le> pgv \<and> pgv < 50 then ''5+''
         else if 50 \<le> pgv \<and> pgv < 80 then ''6-''
         else if 80 \<le> pgv \<and> pgv < 140 then ''6+''
         else if pgv \<ge> 140 then ''7''
         else ''?''))"

definition intensity_codes :: "string list" where
  "intensity_codes = [''0'', ''1'', ''2'', ''3'', ''4'', ''5-'', ''5+'', ''6-'', ''6+'', ''7'']"

section \<open>Errors and the numeric library\<close>

text \<open>
  Every exception the modelled code can raise is a value. A function that can raise
  returns \<open>py_error + 'a\<close>, \<open>Inl\<close> carrying the exception.
\<close>

datatype py_error =
    ValueError
  | ZeroDivisionError
  | OverflowError
  | ComplexResult
  | KeyError
  | IndexError
  | OSError
  | UnicodeDecodeError

text \<open>
  Python floats are read as real numbers, with the limits of the double format at the
  operations that raise on overflow (\<^verbatim>\<open>**\<close> and \<^verbatim>\<open>math.exp\<close>): an exact result of
  magnitude \<open>2 ^ 1024 - 2 ^ 970\<close> or more rounds to infinity, and the operation raises
  \<^verbatim>\<open>OverflowError\<close>; an exact result of magnitude \<open>1 / 2 ^ 1075\<close> or less is the float
  zero, without an error. Rounding inside this range, and the infinities and NaN that
  sums and products can produce, are outside this model. The functions of the
  \<^verbatim>\<open>math\<close> module raise \<^verbatim>\<open>ValueError: math domain error\<close> outside their domain.
\<close>

definition float_huge :: real where
  "float_huge = 2 ^ 1024 - 2 ^ 970"

definition float_tiny :: real where
  "float_tiny = 1 / 2 ^ 1075"

definition float_result :: "real \<Rightarrow> py_error + real" where
  "float_result r =
     (if float_huge \<le> \<bar>r\<bar> then Inl OverflowError
      else if \<bar>r\<bar> \<le> float_tiny then Inr 0
      else Inr r)"

definition math_radians :: "real \<Rightarrow> real" where
  "math_radians x = x * pi / 180"

definition math_sqrt :: "real \<Rightarrow> py_error + real" where
  "math_sqrt x = (if x < 0 then Inl ValueError else Inr (sqrt x))"

definition math_log10 :: "real \<Rightarrow> py_error + real" where
  "math_log10 x = (if x \<le> 0 then Inl ValueError else Inr (log 10 x))"

definition math_atan2 :: "real \<Rightarrow> real \<Rightarrow> real" where
  "math_atan2 y x =
     (if 0 < x then arctan (y / x)
      else if x < 0 then (if 0 \<le> y then arctan (y / x) + pi else arctan (y / x) - pi)
      else if 0 < y then pi / 2
      else if y < 0 then - (pi / 2)
      else 0)"

text \<open>
  \<^verbatim>\<open>x ** y\<close> on floats: a zero base with a negative exponent raises
  \<^verbatim>\<open>ZeroDivisionError\<close>; a negative base with a non-integral exponent gives a complex
  number, which is no float (\<open>ComplexResult\<close>); a result beyond the range raises
  \<^verbatim>\<open>OverflowError\<close>. An \<^verbatim>\<open>int\<close> base, as in \<^verbatim>\<open>10 ** y\<close>, is converted to float.
\<close>

definition float_pow :: "real \<Rightarrow> real \<Rightarrow> py_error + real" where
  "float_pow x y =
     (if y = 0 then Inr 1
      else if x = 0 then (if y < 0 then Inl ZeroDivisionError else Inr 0)
      else if x < 0 then (if y \<in> \<int> then float_result (x powi \<lfloor>y\<rfloor>) else Inl ComplexResult)
      else float_result (x powr y))"

definition math_exp :: "real \<Rightarrow> py_error + real" where
  "math_exp x = float_result (exp x)"

section \<open>Great-circle distance\<close>

text \<open>
  \<^verbatim>\<open>haversine(lon1, lat1, lon2, lat2)\<close>, line for line. \<open>haversine_a\<close> is the
  value of the local variable \<^verbatim>\<open>a\<close>. Over the reals \<open>a\<close> never exceeds 1; the
  floating-point \<^verbatim>\<open>a\<close> can exceed 1 by a rounding error for nearly antipodal points,
  and \<^verbatim>\<open>math.sqrt(1 - a)\<close> then raises. The properties of the attenuation formulas
  below are therefore stated for the distance that \<^verbatim>\<open>haversine\<close> returned, and say
  nothing where it raises.
\<close>

definition haversine_a :: "real \<Rightarrow> real \<Rightarrow> real \<Rightarrow> real \<Rightarrow> real" where
  "haversine_a lon1 lat1 lon2 lat2 =
     (let lon1 = math_radians lon1; lat1 = math_radians lat1;
          lon2 = math_radians lon2; lat2 = math_radians lat2;
          dlon = lon2 - lon1;
          dlat = lat2 - lat1
      in (sin (dlat / 2))\<^sup>2 + cos lat1 * cos lat2 * (sin (dlon / 2))\<^sup>2)"

definition haversine :: "real \<Rightarrow> real \<Rightarrow> real \<Rightarrow> real \<Rightarrow> py_error + real" where
  "haversine lon1 lat1 lon2 lat2 =
     (let R = 6371;
          a = haversine_a lon1 lat1 lon2 lat2
      in case math_sqrt a of Inl e \<Rightarrow> Inl e | Inr sa \<Rightarrow>
         (case math_sqrt (1 - a) of Inl e \<Rightarrow> Inl e | Inr sb \<Rightarrow>
            (let c = 2 * math_atan2 sa sb in Inr (R * c))))"

section \<open>Attenuation formulas\<close>

text \<open>
  \<^verbatim>\<open>predict_pga\<close>. \<open>pga_at\<close> is its second and third line, as a function of the
  distance that \<^verbatim>\<open>haversine\<close> returned. In the product of the last line,
  \<^verbatim>\<open>math.exp\<close> is evaluated before the power.
\<close>

definition pga_at :: "real \<Rightarrow> real \<Rightarrow> real \<Rightarrow> py_error + real" where
  "pga_at horizontal_dist depth mag =
     (case float_pow horizontal_dist 2 of Inl e \<Rightarrow> Inl e | Inr h2 \<Rightarrow>
     (case float_pow depth 2 of Inl e \<Rightarrow> Inl e | Inr d2 \<Rightarrow>
     (case math_sqrt (h2 + d2) of Inl e \<Rightarrow> Inl e | Inr dist_km \<Rightarrow>
     (case math_exp (1.533 * mag) of Inl e \<Rightarrow> Inl e | Inr ex \<Rightarrow>
     (case float_pow dist_km (- 1.607) of Inl e \<Rightarrow> Inl e | Inr p \<Rightarrow>
        Inr (1.657 * ex * p))))))"

definition predict_pga :: "real \<Rightarrow> real \<Rightarrow> real \<Rightarrow> real \<Rightarrow> real \<Rightarrow> real \<Rightarrow> py_error + real" where
  "predict_pga sta_lon sta_lat epi_lon epi_lat depth mag =
     (case haversine epi_lon epi_lat sta_lon sta_lat of
        Inl e \<Rightarrow> Inl e
      | Inr horizontal_dist \<Rightarrow> pga_at horizontal_dist depth mag)"

text \<open>
  \<^verbatim>\<open>predict_pgv\<close>. \<open>pgv_x\<close> and \<open>pgv_term\<close> are the local variables \<^verbatim>\<open>x\<close> and
  \<^verbatim>\<open>term\<close>: \<open>x\<close> as a function of the square root \<open>r\<close> and of \<^verbatim>\<open>long_term\<close>,
  \<open>term\<close> as a function of \<open>x\<close> and of the power \<open>p\<close> that \<^verbatim>\<open>10 ** (0.5 * mag)\<close>
  returned. \<open>pgv_at\<close> is the function from its second line on, as a function of the
  distance that \<^verbatim>\<open>haversine\<close> returned.
\<close>

definition pgv_x :: "real \<Rightarrow> real \<Rightarrow> real" where
  "pgv_x r long_term = (let hypo_dist = r - long_term in max hypo_dist 3)"

definition pgv_term :: "real \<Rightarrow> real \<Rightarrow> real" where
  "pgv_term x p = x + 0.0028 * p"

definition pgv_at :: "real \<Rightarrow> real \<Rightarrow> real \<Rightarrow> py_error + real" where
  "pgv_at horizontal_dist depth mag =
     (case float_pow 10 (0.5 * mag - 1.85) of Inl e \<Rightarrow> Inl e | Inr p1 \<Rightarrow>
     (let long_term = p1 / 2.0 in
     (case float_pow depth 2 of Inl e \<Rightarrow> Inl e | Inr d2 \<Rightarrow>
     (case float_pow horizontal_dist 2 of Inl e \<Rightarrow> Inl e | Inr h2 \<Rightarrow>
     (case math_sqrt (d2 + h2) of Inl e \<Rightarrow> Inl e | Inr r \<Rightarrow>
     (let x = pgv_x r long_term in
     (case float_pow 10 (0.5 * mag) of Inl e \<Rightarrow> Inl e | Inr p \<Rightarrow>
     (let term = pgv_term x p in
     (case math_log10 term of Inl e \<Rightarrow> Inl e | Inr l \<Rightarrow>
     (case float_pow 10 (0.58 * mag + 0.0038 * depth - 1.29 - l - 0.002 * x) of
        Inl e \<Rightarrow> Inl e
      | Inr gpv600 \<Rightarrow> Inr (gpv600 * 1.31)))))))))))"

definition predict_pgv :: "real \<Rightarrow> real \<Rightarrow> real \<Rightarrow> real \<Rightarrow> real \<Rightarrow> real \<Rightarrow> py_error + real" where
  "predict_pgv sta_lon sta_lat epi_lon epi_lat depth mag =
     (case haversine epi_lon epi_lat sta_lon sta_lat of
        Inl e \<Rightarrow> Inl e
      | Inr horizontal_dist \<Rightarrow> pgv_at horizontal_dist depth mag)"

text \<open>
  The formulas in the words of the specification, as total real functions of the
  horizontal distance, the depth and the magnitude, for comparison with the code.
\<close>

definition predictedPGA :: "real \<Rightarrow> real \<Rightarrow> real \<Rightarrow> real" where
  "predictedPGA horizontalDist depthKm magnitude =
     (let slantDist = sqrt (horizontalDist\<^sup>2 + depthKm\<^sup>2)
      in 1.657 * exp (1.533 * magnitude) * slantDist powr (- 1.607))"

definition gpv600 :: "real \<Rightarrow> real \<Rightarrow> real \<Rightarrow> real" where
  "gpv600 horizontalDist depthKm magnitude =
     (let longTermCorrection = 10 powr (0.5 * magnitude - 1.85) / 2;
          hypoDist = sqrt (depthKm\<^sup>2 + horizontalDist\<^sup>2) - longTermCorrection;
          x = max hypoDist 3.0;
          term = x + 0.0028 * 10 powr (0.5 * magnitude)
      in 10 powr (0.58 * magnitude + 0.0038 * depthKm - 1.29 - log 10 term - 0.002 * x))"

definition predictedPGV :: "real \<Rightarrow> real \<Rightarrow> real \<Rightarrow> real" where
  "predictedPGV horizontalDist depthKm magnitude = gpv600 horizontalDist depthKm magnitude * 1.31"

text \<open>
  Where an exact result lies with respect to the double range, with a factor of two to
  spare on either side, so that the rounding of the operands does not decide:
  \<open>in_float_range\<close>, the operation returns the result; \<open>float_overflows\<close>, it
  overflows; \<open>float_vanishes\<close>, its result is the float zero.
\<close>

definition in_float_range :: "real \<Rightarrow> bool" where
  "in_float_range r \<longleftrightarrow> r = 0 \<or> (2 * float_tiny \<le> \<bar>r\<bar> \<and> 2 * \<bar>r\<bar> \<le> float_huge)"

definition float_overflows :: "real \<Rightarrow> bool" where
  "float_overflows r \<longleftrightarrow> 2 * float_huge \<le> \<bar>r\<bar>"

definition float_vanishes :: "real \<Rightarrow> bool" where
  "float_vanishes r \<longleftrightarrow> 2 * \<bar>r\<bar> \<le> float_tiny"

section \<open>Text\<close>

text \<open>
  A Python \<^verbatim>\<open>str\<close> is a sequence of Unicode code points, here a list of natural
  numbers. \<open>ascii\<close> turns a literal into its code points.
\<close>

type_synonym pystr = "nat list"

definition ascii :: "string \<Rightarrow> pystr" where
  "ascii s = map of_char s"

text \<open>
  \<^verbatim>\<open>str.isspace\<close> on one character: the code points that \<^verbatim>\<open>str.strip()\<close> removes.
\<close>

definition py_isspace :: "nat \<Rightarrow> bool" where
  "py_isspace c \<longleftrightarrow>
     (9 \<le> c \<and> c \<le> 13) \<or> (28 \<le> c \<and> c \<le> 32) \<or> c = 133 \<or> c = 160 \<or> c = 5760
     \<or> (8192 \<le> c \<and> c \<le> 8202) \<or> c = 8232 \<or> c = 8233 \<or> c = 8239 \<or> c = 8287 \<or> c = 12288"

definition py_strip :: "pystr \<Rightarrow> pystr" where
  "py_strip s = rev (dropWhile py_isspace (rev (dropWhile py_isspace s)))"

text \<open>
  \<^verbatim>\<open>s.split(sep)\<close> for a non-empty separator: the pieces between the non-overlapping
  occurrences of \<open>sep\<close>, found from the left. Every call in the source passes a non-empty
  literal, so the \<^verbatim>\<open>ValueError\<close> of an empty separator does not arise; with
  \<open>sep = []\<close> this function returns the text in one piece.
\<close>

function py_split :: "pystr \<Rightarrow> pystr \<Rightarrow> pystr list" where
  "py_split sep [] = [[]]"
| "py_split sep (c # cs) =
     (if sep \<noteq> [] \<and> prefix sep (c # cs)
      then [] # py_split sep (drop (length sep) (c # cs))
      else (case py_split sep cs of p # ps \<Rightarrow> (c # p) # ps | [] \<Rightarrow> [[c]]))"
  by pat_completeness auto
termination
  by (relation "measure (\<lambda>(sep, s). length s)") auto

text \<open>
  \<^verbatim>\<open>field.split("=", 1)\<close> for a field that contains the separator: the text before
  its first occurrence and the text after it.
\<close>

definition split_first :: "nat \<Rightarrow> pystr \<Rightarrow> pystr \<times> pystr" where
  "split_first c s = (takeWhile (\<lambda>x. x \<noteq> c) s, drop 1 (dropWhile (\<lambda>x. x \<noteq> c) s))"

text \<open>
  The decimal digits of Unicode (general category Nd, Unicode 14.0 as in Python 3.11):
  each script's digits are ten consecutive code points, listed by the code point of its
  zero. \<open>unicode_decimal c\<close> is the digit value of \<open>c\<close>. The class \<^verbatim>\<open>\d\<close> of a
  \<^verbatim>\<open>str\<close> pattern and the digits of \<^verbatim>\<open>float\<close> are these characters.
\<close>

definition decimal_zeros :: "nat list" where
  "decimal_zeros =
     [48, 1632, 1776, 1984, 2406, 2534, 2662, 2790, 2918, 3046, 3174, 3302, 3430, 3558,
      3664, 3792, 3872, 4160, 4240, 6112, 6160, 6470, 6608, 6784, 6800, 6992, 7088, 7232,
      7248, 42528, 43216, 43264, 43472, 43504, 43600, 44016, 65296, 66720, 68912, 69734,
      69872, 69942, 70096, 70384, 70736, 70864, 71248, 71360, 71472, 71904, 72016, 72784,
      73040, 73120, 92768, 92864, 93008, 120782, 120792, 120802, 120812, 120822, 123200,
      123632, 125264, 130032]"

definition unicode_decimal :: "nat \<Rightarrow> nat option" where
  "unicode_decimal c =
     (case find (\<lambda>z. z \<le> c \<and> c < z + 10) decimal_zeros of
        None \<Rightarrow> None
      | Some z \<Rightarrow> Some (c - z))"

section \<open>The built-in float conversion\<close>

text \<open>
  The value of \<^verbatim>\<open>float(s)\<close> for a string: a finite number (read as a real), an
  infinity or NaN; \<^verbatim>\<open>ValueError\<close> when \<open>s\<close> is no float literal.
\<close>

datatype pyfloat = Finite real | PosInf | NegInf | NaN

text \<open>
  Before parsing, \<^verbatim>\<open>float\<close> maps every non-ASCII space to a blank, every decimal
  digit to its ASCII digit and every other non-ASCII character to a question mark, and
  removes the ASCII white space at both ends.
\<close>

definition float_ascii :: "nat \<Rightarrow> nat" where
  "float_ascii c =
     (if c < 127 then c
      else if py_isspace c then 32
      else (case unicode_decimal c of Some d \<Rightarrow> 48 + d | None \<Rightarrow> 63))"

definition c_isspace :: "nat \<Rightarrow> bool" where
  "c_isspace c \<longleftrightarrow> (9 \<le> c \<and> c \<le> 13) \<or> c = 32"

definition c_isdigit :: "nat \<Rightarrow> bool" where
  "c_isdigit c \<longleftrightarrow> 48 \<le> c \<and> c \<le> 57"

definition c_tolower :: "nat \<Rightarrow> nat" where
  "c_tolower c = (if 65 \<le> c \<and> c \<le> 90 then c + 32 else c)"

text \<open>
  \<open>digits_tail\<close> reads \<^verbatim>\<open>(["_"] digit)*\<close> after a digit, \<open>digitpart\<close> reads
  \<^verbatim>\<open>digit (["_"] digit)*\<close>; both return the digit values and the unread rest.
\<close>

fun digits_tail :: "nat list \<Rightarrow> nat list \<times> nat list" where
  "digits_tail [] = ([], [])"
| "digits_tail (c # cs) =
     (if c_isdigit c then (let (ds, r) = digits_tail cs in ((c - 48) # ds, r))
      else if c = 95 then
        (case cs of
           [] \<Rightarrow> ([], c # cs)
         | d # cs' \<Rightarrow>
             if c_isdigit d then (let (ds, r) = digits_tail cs' in ((d - 48) # ds, r))
             else ([], c # cs))
      else ([], c # cs))"

definition digitpart :: "nat list \<Rightarrow> (nat list \<times> nat list) option" where
  "digitpart s =
     (case s of
        [] \<Rightarrow> None
      | c # cs \<Rightarrow>
          if c_isdigit c then (let (ds, r) = digits_tail cs in Some ((c - 48) # ds, r))
          else None)"

definition digits_value :: "nat list \<Rightarrow> nat" where
  "digits_value ds = foldl (\<lambda>a d. 10 * a + d) 0 ds"

text \<open>
  \<^verbatim>\<open>number ::= [digitpart] "." digitpart | digitpart ["."]\<close>: the integer digits, the
  fraction digits and the rest.
\<close>

definition float_number :: "nat list \<Rightarrow> (nat list \<times> nat list \<times> nat list) option" where
  "float_number s =
     (let (ip, r1) = (case digitpart s of Some (ds, r) \<Rightarrow> (ds, r) | None \<Rightarrow> ([], s))
      in case r1 of
           [] \<Rightarrow> (if ip = [] then None else Some (ip, [], r1))
         | c # r1' \<Rightarrow>
             if c = 46 then
               (let (fp, r2) = (case digitpart r1' of Some (ds, r) \<Rightarrow> (ds, r) | None \<Rightarrow> ([], r1'))
                in if ip = [] \<and> fp = [] then None else Some (ip, fp, r2))
             else (if ip = [] then None else Some (ip, [], r1)))"

text \<open>
  \<^verbatim>\<open>exponent ::= ("e" | "E") [sign] digitpart\<close>, optional: the exponent (0 when
  absent) and the rest; \<open>None\<close> when an \<^verbatim>\<open>e\<close> is not followed by an exponent.
\<close>

definition float_exponent :: "nat list \<Rightarrow> (int \<times> nat list) option" where
  "float_exponent s =
     (case s of
        [] \<Rightarrow> Some (0, [])
      | c # cs \<Rightarrow>
          if c = 101 \<or> c = 69 then
            (let (neg, r) = (case cs of
                               [] \<Rightarrow> (False, cs)
                             | g # cs' \<Rightarrow> if g = 45 then (True, cs') else if g = 43 then (False, cs')
                                          else (False, cs))
             in case digitpart r of
                  None \<Rightarrow> None
                | Some (ds, rest) \<Rightarrow>
                    Some (if neg then - int (digits_value ds) else int (digits_value ds), rest))
          else Some (0, c # cs))"

definition scale10 :: "real \<Rightarrow> int \<Rightarrow> real" where
  "scale10 m e = (if 0 \<le> e then m * 10 ^ nat e else m / 10 ^ nat (- e))"

definition float_unsigned :: "nat list \<Rightarrow> py_error + pyfloat" where
  "float_unsigned s =
     (if map c_tolower s = ascii ''inf'' \<or> map c_tolower s = ascii ''infinity'' then Inr PosInf
      else if map c_tolower s = ascii ''nan'' then Inr NaN
      else (case float_number s of
              None \<Rightarrow> Inl ValueError
            | Some (ip, fp, r) \<Rightarrow>
                (case float_exponent r of
                   None \<Rightarrow> Inl ValueError
                 | Some (e, rest) \<Rightarrow>
                     if rest = [] then
                       Inr (Finite (scale10 (real (digits_value (ip @ fp))) (e - int (length fp))))
                     else Inl ValueError)))"

definition float_negate :: "pyfloat \<Rightarrow> pyfloat" where
  "float_negate x = (case x of Finite r \<Rightarrow> Finite (- r) | PosInf \<Rightarrow> NegInf | NegInf \<Rightarrow> PosInf | NaN \<Rightarrow> NaN)"

definition py_float :: "pystr \<Rightarrow> py_error + pyfloat" where
  "py_float s =
     (let t = rev (dropWhile c_isspace (rev (dropWhile c_isspace (map float_ascii s))))
      in case t of
           [] \<Rightarrow> Inl ValueError
         | c # cs \<Rightarrow>
             if c = 45 then (case float_unsigned cs of Inl e \<Rightarrow> Inl e | Inr x \<Rightarrow> Inr (float_negate x))
             else if c = 43 then float_unsigned cs
             else float_unsigned (c # cs))"

section \<open>The epicenter in the header\<close>

text \<open>
  \<^verbatim>\<open>re.search(label + r"([\d\.]+)", header)\<close>, group 1: the leftmost place where the
  label is followed by a digit or a dot, and the longest run of digits and dots there.
\<close>

definition is_number_char :: "nat \<Rightarrow> bool" where
  "is_number_char c \<longleftrightarrow> unicode_decimal c \<noteq> None \<or> c = 46"

fun re_search_number :: "pystr \<Rightarrow> pystr \<Rightarrow> pystr option" where
  "re_search_number label [] = None"
| "re_search_number label (c # cs) =
     (if prefix label (c # cs) \<and> takeWhile is_number_char (drop (length label) (c # cs)) \<noteq> []
      then Some (takeWhile is_number_char (drop (length label) (c # cs)))
      else re_search_number label cs)"

definition parse_actual_epicenter :: "pystr \<Rightarrow> py_error + (pyfloat \<times> pyfloat) option" where
  "parse_actual_epicenter header =
     (let lon_match = re_search_number (ascii ''Lon:'') header;
          lat_match = re_search_number (ascii ''Lat:'') header
      in case (lon_match, lat_match) of
           (Some lon, Some lat) \<Rightarrow>
             (case py_float lon of
                Inl e \<Rightarrow> Inl e
              | Inr x \<Rightarrow> (case py_float lat of Inl e \<Rightarrow> Inl e | Inr y \<Rightarrow> Inr (Some (x, y))))
         | _ \<Rightarrow> Inr None)"

section \<open>The station file\<close>

text \<open>
  A station is the dictionary the source builds: an association list in insertion
  order; assigning to a key that is present replaces its value in place. A value is the
  string read from the file, or the float that replaced it.
\<close>

datatype pyval = Str pystr | Flt pyfloat

type_synonym station = "(pystr \<times> pyval) list"

definition required :: "pystr list" where
  "required = [ascii ''Stacode'', ascii ''Stalon'', ascii ''Stalat'', ascii ''Int'',
               ascii ''PGA(SUM)'', ascii ''PGV(SUM)'']"

text \<open>The inner loop over the fields of one segment.\<close>

fun parse_fields :: "pystr list \<Rightarrow> station \<Rightarrow> station" where
  "parse_fields [] station = station"
| "parse_fields (field # fields) station =
     (let field = py_strip field
      in if 61 \<in> set field
         then (let (key, value) = split_first 61 field
               in parse_fields fields (AList.update (py_strip key) (Str (py_strip value)) station))
         else parse_fields fields station)"

text \<open>
  \<^verbatim>\<open>station[k] = float(station[k])\<close>: a missing key raises \<^verbatim>\<open>KeyError\<close>, a string
  that is no float literal raises \<^verbatim>\<open>ValueError\<close>.
\<close>

definition float_field :: "pystr \<Rightarrow> station \<Rightarrow> py_error + station" where
  "float_field k station =
     (case map_of station k of
        None \<Rightarrow> Inl KeyError
      | Some (Flt x) \<Rightarrow> Inr (AList.update k (Flt x) station)
      | Some (Str s) \<Rightarrow>
          (case py_float s of Inl e \<Rightarrow> Inl e | Inr x \<Rightarrow> Inr (AList.update k (Flt x) station)))"

text \<open>The body of the \<^verbatim>\<open>try\<close> block: four conversions, the first failure ends it.\<close>

definition convert_numeric :: "station \<Rightarrow> py_error + station" where
  "convert_numeric station =
     (case float_field (ascii ''Stalon'') station of Inl e \<Rightarrow> Inl e | Inr s1 \<Rightarrow>
     (case float_field (ascii ''Stalat'') s1 of Inl e \<Rightarrow> Inl e | Inr s2 \<Rightarrow>
     (case float_field (ascii ''PGA(SUM)'') s2 of Inl e \<Rightarrow> Inl e | Inr s3 \<Rightarrow>
      float_field (ascii ''PGV(SUM)'') s3)))"

text \<open>
  The loop over the segments, with the list \<^verbatim>\<open>stations\<close> as accumulator. An exception
  in the \<^verbatim>\<open>try\<close> block is caught (the diagnostic it prints is not modelled) and the
  loop continues with the next segment.
\<close>

fun stations_loop :: "pystr list \<Rightarrow> station list \<Rightarrow> station list" where
  "stations_loop [] stations = stations"
| "stations_loop (part # parts) stations =
     (let seg = ascii ''Stacode='' @ part;
          fields = py_split (ascii '','') seg;
          station = parse_fields fields []
      in if list_all (\<lambda>k. k \<in> fst ` set station) required
         then (case convert_numeric station of
                 Inl e \<Rightarrow> stations_loop parts stations
               | Inr station' \<Rightarrow> stations_loop parts (stations @ [station']))
         else stations_loop parts stations)"

text \<open>Lines 41 to 64 of \<^verbatim>\<open>parse_station_data\<close>: from the decoded text to the result.\<close>

definition parse_station_text :: "pystr \<Rightarrow> py_error + (pystr \<times> station list)" where
  "parse_station_text text =
     (case py_split (ascii ''Stacode='') text of
        [] \<Rightarrow> Inl IndexError
      | part0 # parts \<Rightarrow>
          (let header = py_strip part0 in Inr (header, stations_loop parts [])))"

text \<open>
  Reading the file. The file system maps a name to the bytes of the file, when it can be
  opened and read; \<open>decode\<close> is the text-mode decoding of the two codecs, \<open>None\<close> when the
  bytes are not valid in the encoding. The file does not change between the two reads.
\<close>

datatype encoding = Big5 | CP950

type_synonym filesystem = "pystr \<Rightarrow> nat list option"

definition read_text ::
  "(encoding \<Rightarrow> nat list \<Rightarrow> pystr option) \<Rightarrow> filesystem \<Rightarrow> pystr \<Rightarrow> encoding \<Rightarrow> py_error + pystr" where
  "read_text decode fs filename enc =
     (case fs filename of
        None \<Rightarrow> Inl OSError
      | Some bytes \<Rightarrow>
          (case decode enc bytes of None \<Rightarrow> Inl UnicodeDecodeError | Some text \<Rightarrow> Inr text))"

definition parse_station_data ::
  "(encoding \<Rightarrow> nat list \<Rightarrow> pystr option) \<Rightarrow> filesystem \<Rightarrow> pystr
     \<Rightarrow> py_error + (pystr \<times> station list)" where
  "parse_station_data decode fs filename =
     (case (case read_text decode fs filename Big5 of
              Inr text \<Rightarrow> Inr text
            | Inl e \<Rightarrow>
                if e = UnicodeDecodeError then read_text decode fs filename CP950 else Inl e) of
        Inl e \<Rightarrow> Inl e
      | Inr text \<Rightarrow> parse_station_text text)"

section \<open>The parser in the words of the specification\<close>

text \<open>
  A record is usable when all six required keys are present and the four numeric fields
  parse as floats. \<open>segment_record\<close> is the dictionary read from one segment, the
  delimiter put back in front of it; \<open>as_numbers\<close> is a usable record as the parser
  returns it, the four numeric fields being floats and everything else as read.
\<close>

definition numeric_keys :: "pystr list" where
  "numeric_keys = [ascii ''Stalon'', ascii ''Stalat'', ascii ''PGA(SUM)'', ascii ''PGV(SUM)'']"

definition segment_record :: "pystr \<Rightarrow> station" where
  "segment_record part = parse_fields (py_split (ascii '','') (ascii ''Stacode='' @ part)) []"

definition has_required :: "station \<Rightarrow> bool" where
  "has_required st \<longleftrightarrow> (\<forall>k \<in> set required. k \<in> fst ` set st)"

definition floats_parse :: "station \<Rightarrow> bool" where
  "floats_parse st \<longleftrightarrow>
     (\<forall>k \<in> set numeric_keys. \<exists>s x. map_of st k = Some (Str s) \<and> py_float s = Inr x)"

definition usable :: "station \<Rightarrow> bool" where
  "usable st \<longleftrightarrow> has_required st \<and> floats_parse st"

definition to_number :: "pyval \<Rightarrow> pyval" where
  "to_number v =
     (case v of
        Flt x \<Rightarrow> Flt x
      | Str s \<Rightarrow> (case py_float s of Inr x \<Rightarrow> Flt x | Inl e \<Rightarrow> Str s))"

definition numbers_at :: "pystr list \<Rightarrow> station \<Rightarrow> station" where
  "numbers_at ks st = map (\<lambda>(k, v). if k \<in> set ks then (k, to_number v) else (k, v)) st"

definition as_numbers :: "station \<Rightarrow> station" where
  "as_numbers st = numbers_at numeric_keys st"

text \<open>
  The text of the parser scenario; the character after \<^verbatim>\<open>Int=4\<close> and \<^verbatim>\<open>Int=3\<close>
  is U+7D1A.
\<close>

definition scenario_text :: pystr where
  "scenario_text =
     ascii ''Header text Lon:120.57 Lat:23.23'' @ [10]
     @ ascii ''Stacode=A1,Stalon=121.0,Stalat=23.5,Int=4'' @ [32026]
     @ ascii '',PGA(SUM)=12.3,PGV(SUM)=5.1,Stacode=A2,Stalon=bad,Stalat=24.0,Int=3'' @ [32026]
     @ ascii '',PGA(SUM)=5,PGV(SUM)=2''"

text \<open>
  \<open>has_number_after label header\<close>: the header contains the label immediately followed
  by a digit or a dot, that is, by a non-empty token of digits and dots.
\<close>

definition has_number_after :: "pystr \<Rightarrow> pystr \<Rightarrow> bool" where
  "has_number_after label header \<longleftrightarrow>
     (\<exists>before c rest. header = before @ label @ c # rest \<and> is_number_char c)"

text \<open>
  A token of digits and dots is a float literal when it has at most one dot and at least
  one digit.
\<close>

definition float_token_ok :: "pystr \<Rightarrow> bool" where
  "float_token_ok tok \<longleftrightarrow> count_list tok 46 \<le> 1 \<and> list_ex (\<lambda>c. c \<noteq> 46) tok"

section \<open>Properties of the classification\<close>

text \<open>
  C1. For non-negative pga and pgv the classification is one of the ten intensity codes
  and never the sentinel \<^verbatim>\<open>"?"\<close>. Boundary values belong to the upper bracket:
  pga 0.8, 2.5, 8, 25 give 1, 2, 3, 4; pga 80 is decided by pgv alone; with pga at least
  80, pgv 15, 30, 50, 80, 140 give 5-, 5+, 6-, 6+, 7.
\<close>

theorem get_predicted_intensity_total:
  assumes "0 \<le> pga" and "0 \<le> pgv" and "80 \<le> hi"
  shows "get_predicted_intensity pga pgv \<in> set intensity_codes
       \<and> get_predicted_intensity pga pgv \<noteq> ''?''
       \<and> get_predicted_intensity 0.8 pgv = ''1''
       \<and> get_predicted_intensity 2.5 pgv = ''2''
       \<and> get_predicted_intensity 8 pgv = ''3''
       \<and> get_predicted_intensity 25 pgv = ''4''
       \<and> get_predicted_intensity 80 pgv =
             (if pgv < 15 then ''4'' else if pgv < 30 then ''5-'' else if pgv < 50 then ''5+''
              else if pgv < 80 then ''6-'' else if pgv < 140 then ''6+'' else ''7'')
       \<and> get_predicted_intensity hi 15 = ''5-''
       \<and> get_predicted_intensity hi 30 = ''5+''
       \<and> get_predicted_intensity hi 50 = ''6-''
       \<and> get_predicted_intensity hi 80 = ''6+''
       \<and> get_predicted_intensity hi 140 = ''7''"
  using assms by (simp add: get_predicted_intensity_def intensity_codes_def)

theorem get_predicted_intensity_total_witness:
  "(0::real) \<le> 100 \<and> (0::real) \<le> 20 \<and> (80::real) \<le> 100
   \<and> get_predicted_intensity 100 20 \<in> set intensity_codes
   \<and> get_predicted_intensity 100 20 \<noteq> ''?''
   \<and> get_predicted_intensity 80 20 = ''5-''
   \<and> get_predicted_intensity 100 140 = ''7''"
  using get_predicted_intensity_total [of 100 20 100] by simp

section \<open>The great-circle distance\<close>

lemma haversine_a_sym: "haversine_a lon1 lat1 lon2 lat2 = haversine_a lon2 lat2 lon1 lat1"
proof -
  have m: "\<And>u v::real. (sin ((u - v) / 2))\<^sup>2 = (sin ((v - u) / 2))\<^sup>2"
  proof -
    fix u v :: real
    have "(u - v) / 2 = - ((v - u) / 2)" by argo
    then have "sin ((u - v) / 2) = - sin ((v - u) / 2)" by (metis sin_minus)
    then show "(sin ((u - v) / 2))\<^sup>2 = (sin ((v - u) / 2))\<^sup>2" by simp
  qed
  show ?thesis
    unfolding haversine_a_def Let_def
    using m [of "math_radians lat2" "math_radians lat1"] m [of "math_radians lon2" "math_radians lon1"]
    by (simp add: mult.commute)
qed

lemma haversine_a_same: "haversine_a lon lat lon lat = 0"
  by (simp add: haversine_a_def)

text \<open>
  C6. The great-circle distance is symmetric in its two points, and it is 0 when the
  two points are the same.
\<close>

theorem haversine_symmetric_zero:
  "haversine lon1 lat1 lon2 lat2 = haversine lon2 lat2 lon1 lat1
   \<and> haversine lon lat lon lat = Inr 0"
  by (simp add: haversine_def haversine_a_sym [of lon1 lat1 lon2 lat2] haversine_a_same
      math_sqrt_def math_atan2_def)

section \<open>The double range\<close>

lemma float_tiny_pos: "0 < float_tiny" by (simp add: float_tiny_def)
lemma float_tiny_lt_1: "float_tiny < 1" by (simp add: float_tiny_def)
lemma float_huge_gt_1: "1 < float_huge" by (simp add: float_huge_def)

lemma float_result_in_range: "in_float_range r \<Longrightarrow> float_result r = Inr r"
  using float_tiny_pos float_huge_gt_1 by (auto simp: in_float_range_def float_result_def)

lemma float_result_overflows: "float_overflows r \<Longrightarrow> float_result r = Inl OverflowError"
  using float_huge_gt_1 by (simp add: float_result_def float_overflows_def)

lemma float_result_vanishes: "float_vanishes r \<Longrightarrow> float_result r = Inr 0"
  using float_tiny_pos float_tiny_lt_1 float_huge_gt_1
  by (simp add: float_result_def float_vanishes_def)

lemma float_result_error: "float_result r = Inl e \<Longrightarrow> e = OverflowError"
  by (auto simp: float_result_def split: if_splits)

lemma float_result_nonneg: "float_result r = Inr v \<Longrightarrow> 0 \<le> r \<Longrightarrow> 0 \<le> v \<and> v \<le> r"
  by (auto simp: float_result_def split: if_splits)

lemma float_result_mono:
  assumes "0 \<le> r1" and "r1 \<le> r2" and "float_result r2 = Inr v2"
  shows "\<exists>v1. float_result r1 = Inr v1 \<and> v1 \<le> v2"
  using assms float_tiny_pos by (auto simp: float_result_def split: if_splits)

lemma float_result_mono_up:
  assumes "0 \<le> r1" and "r1 \<le> r2" and "r2 < float_huge" and "float_result r1 = Inr v1"
  shows "\<exists>v2. float_result r2 = Inr v2 \<and> v1 \<le> v2"
  using assms float_tiny_pos by (auto simp: float_result_def split: if_splits)

lemma float_pow_square: "float_pow x 2 = float_result (x\<^sup>2)"
proof -
  have "x < 0 \<Longrightarrow> x powi \<lfloor>2::real\<rfloor> = x\<^sup>2" by simp
  moreover have "0 < x \<Longrightarrow> x powr 2 = x\<^sup>2" by simp
  moreover have "float_result 0 = Inr 0"
    using float_tiny_pos float_huge_gt_1 by (simp add: float_result_def)
  ultimately show ?thesis by (auto simp: float_pow_def not_less)
qed

lemma float_pow_ten: "float_pow 10 y = float_result (10 powr y)"
proof (cases "y = 0")
  case True
  have "float_result 1 = Inr 1"
    using float_tiny_lt_1 float_huge_gt_1 by (simp add: float_result_def)
  with True show ?thesis by (simp add: float_pow_def)
next
  case False
  then show ?thesis by (simp add: float_pow_def)
qed

lemma two_powr_1000: "(2::real) powr 1000 = 2 ^ 1000"
  by (subst powr_numeral) simp_all

lemma two_powr_m1000: "(2::real) powr (- 1000) = 1 / 2 ^ 1000"
  unfolding powr_minus two_powr_1000 by (simp only: inverse_eq_divide)

lemma between_powers_in_range:
  assumes "2 powr (- 1000) \<le> r" and "r \<le> 2 powr 1000"
  shows "in_float_range r"
proof -
  have u: "2 * (2::real) ^ 1000 \<le> 2 ^ 1024 - 2 ^ 970" by simp
  have l: "2 * (1 / 2 ^ 1075) \<le> (1::real) / 2 ^ 1000" by simp
  have p: "0 < (2::real) powr (- 1000)" by simp
  have "0 < r" using assms(1) p by linarith
  then have a: "\<bar>r\<bar> = r" by simp
  have "2 * float_tiny \<le> r" using assms(1) l unfolding two_powr_m1000 float_tiny_def by linarith
  moreover have "2 * r \<le> float_huge" using assms(2) u unfolding two_powr_1000 float_huge_def by linarith
  ultimately show ?thesis unfolding in_float_range_def a by simp
qed

lemma two_powr_in_range:
  assumes "- 1000 \<le> a" and "a \<le> 1000"
  shows "in_float_range (2 powr a)"
proof (rule between_powers_in_range)
  show "(2::real) powr (- 1000) \<le> 2 powr a" using assms by (intro powr_mono) simp_all
  show "(2::real) powr a \<le> 2 powr 1000" using assms by (intro powr_mono) simp_all
qed

lemma ten_powr_300: "(10::real) powr 300 = 10 ^ 300"
  by (subst powr_numeral) simp_all

lemma ten_powr_m300: "(10::real) powr (- 300) = 1 / 10 ^ 300"
  unfolding powr_minus ten_powr_300 by (simp only: inverse_eq_divide)

lemma ten_powr_in_range:
  assumes "- 300 \<le> a" and "a \<le> 300"
  shows "in_float_range (10 powr a)"
proof (rule between_powers_in_range)
  have l: "(1::real) / 2 ^ 1000 \<le> 1 / 10 ^ 300" by simp
  have "(10::real) powr (- 300) \<le> 10 powr a" using assms by (intro powr_mono) simp_all
  then show "(2::real) powr (- 1000) \<le> 10 powr a"
    using l unfolding two_powr_m1000 ten_powr_m300 by linarith
  have u: "(10::real) ^ 300 \<le> 2 ^ 1000" by simp
  have "(10::real) powr a \<le> 10 powr 300" using assms by (intro powr_mono) simp_all
  then show "(10::real) powr a \<le> 2 powr 1000"
    using u unfolding two_powr_1000 ten_powr_300 by linarith
qed

lemma exp_in_range:
  assumes "- 600 \<le> x" and "x \<le> 600"
  shows "in_float_range (exp x)"
proof (rule between_powers_in_range)
  have e: "exp (600::real) = exp 1 ^ 600"
    using exp_of_nat_mult [of 600 "1::real"] by simp
  have "exp (1::real) ^ 600 \<le> 3 ^ 600" by (rule power_mono) (simp_all add: exp_le)
  moreover have "(3::real) ^ 600 \<le> 2 ^ 1000" by simp
  ultimately have u: "exp (600::real) \<le> 2 ^ 1000" unfolding e by linarith
  have "exp x \<le> exp 600" using assms by simp
  then show "exp x \<le> 2 powr 1000" using u unfolding two_powr_1000 by linarith
  have p: "0 < exp (600::real)" by simp
  have i: "exp (- 600::real) = 1 / exp 600" by (simp add: exp_minus inverse_eq_divide)
  have "1 / 2 ^ 1000 \<le> 1 / exp (600::real)"
    using u p by (intro divide_left_mono) simp_all
  then have "1 / 2 ^ 1000 \<le> exp (- 600::real)" unfolding i .
  moreover have "exp (- 600) \<le> exp x" using assms by simp
  ultimately show "2 powr (- 1000) \<le> exp x" unfolding two_powr_m1000 by linarith
qed

section \<open>What the great-circle distance returns\<close>

lemma haversine_same: "haversine lon lat lon lat = Inr 0"
  by (simp add: haversine_def haversine_a_same math_sqrt_def math_atan2_def)

lemma math_atan2_quadrant:
  assumes "0 \<le> y" and "0 \<le> x"
  shows "0 \<le> math_atan2 y x \<and> math_atan2 y x \<le> pi / 2"
proof (cases "0 < x")
  case True
  have "0 \<le> y / x" using assms True by simp
  then have "0 \<le> arctan (y / x)" by simp
  moreover have "arctan (y / x) \<le> pi / 2" using arctan_ubound [of "y / x"] by linarith
  ultimately show ?thesis using True by (simp add: math_atan2_def)
next
  case False
  with assms have "x = 0" by linarith
  then show ?thesis using assms by (simp add: math_atan2_def)
qed

lemma haversine_range:
  assumes "haversine lon1 lat1 lon2 lat2 = Inr h"
  shows "0 \<le> h \<and> h \<le> 6371 * pi"
proof -
  let ?a = "haversine_a lon1 lat1 lon2 lat2"
  from assms have h: "h = 6371 * (2 * math_atan2 (sqrt ?a) (sqrt (1 - ?a)))"
    and a0: "0 \<le> ?a" and a1: "0 \<le> 1 - ?a"
    by (auto simp: haversine_def math_sqrt_def Let_def split: if_splits)
  have "0 \<le> math_atan2 (sqrt ?a) (sqrt (1 - ?a)) \<and> math_atan2 (sqrt ?a) (sqrt (1 - ?a)) \<le> pi / 2"
    using a0 a1 by (intro math_atan2_quadrant) simp_all
  then show ?thesis unfolding h by simp
qed

lemma haversine_square:
  assumes "haversine lon1 lat1 lon2 lat2 = Inr h"
  shows "h\<^sup>2 < float_huge"
proof -
  have r: "0 \<le> h \<and> h \<le> 6371 * pi" using assms by (rule haversine_range)
  have "pi \<le> 4" using pi_less_4 by linarith
  with r have "h \<le> 25484" by linarith
  with r have "h\<^sup>2 \<le> 25484\<^sup>2" by (intro power_mono) simp_all
  moreover have "(25484::real)\<^sup>2 < 2 ^ 1024 - 2 ^ 970" by simp
  ultimately show ?thesis unfolding float_huge_def by linarith
qed

section \<open>The acceleration formula\<close>

lemma pga_at_unfold:
  "pga_at h depth mag =
     (case float_result (h\<^sup>2) of Inl e \<Rightarrow> Inl e | Inr h2 \<Rightarrow>
     (case float_result (depth\<^sup>2) of Inl e \<Rightarrow> Inl e | Inr d2 \<Rightarrow>
     (case math_sqrt (h2 + d2) of Inl e \<Rightarrow> Inl e | Inr dist_km \<Rightarrow>
     (case float_result (exp (1.533 * mag)) of Inl e \<Rightarrow> Inl e | Inr ex \<Rightarrow>
     (case float_pow dist_km (- 1.607) of Inl e \<Rightarrow> Inl e | Inr p \<Rightarrow>
        Inr (1.657 * ex * p))))))"
  unfolding pga_at_def float_pow_square math_exp_def by (rule refl)

lemma float_result_returns: "\<bar>r\<bar> < float_huge \<Longrightarrow> \<exists>v. float_result r = Inr v"
  by (simp add: float_result_def)

lemma slant_power_in_range:
  assumes "2 * float_tiny \<le> s" and "s \<le> float_huge"
  shows "in_float_range (sqrt s powr (- 1.607))"
proof (rule between_powers_in_range)
  have t: "2 * float_tiny = 2 powr (- 1074)"
  proof -
    have "(2::real) powr 1074 = 2 ^ 1074" by (subst powr_numeral) simp_all
    then have "(2::real) powr (- 1074) = 1 / 2 ^ 1074"
      unfolding powr_minus by (simp only: inverse_eq_divide)
    then show ?thesis by (simp add: float_tiny_def)
  qed
  have g: "float_huge \<le> 2 powr 1024"
  proof -
    have "(2::real) powr 1024 = 2 ^ 1024" by (subst powr_numeral) simp_all
    then show ?thesis by (simp add: float_huge_def)
  qed
  have lo: "2 powr (- 1074) \<le> s" using assms(1) t by simp
  have hi: "s \<le> 2 powr 1024" using assms(2) g by linarith
  have pos: "0 < s" using lo powr_gt_zero [of 2 "- 1074"] by linarith
  have e: "sqrt s powr (- 1.607) = s powr (- 0.8035)"
    using pos by (simp add: powr_half_sqrt [symmetric] powr_powr)
  have "s powr (- 0.8035) \<le> (2 powr (- 1074)) powr (- 0.8035)"
    using lo by (intro powr_mono2') simp_all
  also have "\<dots> = 2 powr (- 1074 * - 0.8035)" by (rule powr_powr)
  also have "\<dots> \<le> 2 powr 1000" by (intro powr_mono) simp_all
  finally show "sqrt s powr (- 1.607) \<le> 2 powr 1000" unfolding e .
  have "(2::real) powr (- 1000) \<le> 2 powr (1024 * - 0.8035)" by (intro powr_mono) simp_all
  also have "\<dots> = (2 powr 1024) powr (- 0.8035)" by (rule powr_powr [symmetric])
  also have "\<dots> \<le> s powr (- 0.8035)"
    using hi pos by (intro powr_mono2') simp_all
  finally show "2 powr (- 1000) \<le> sqrt s powr (- 1.607)" unfolding e .
qed

lemma pga_at_in_range:
  assumes h: "in_float_range (h\<^sup>2)" and d: "in_float_range (depth\<^sup>2)"
    and m: "in_float_range (exp (1.533 * mag))"
  shows "pga_at h depth mag =
     (if h = 0 \<and> depth = 0 then Inl ZeroDivisionError else Inr (predictedPGA h depth mag))"
proof (cases "h = 0 \<and> depth = 0")
  case True
  have z: "float_result 0 = Inr 0" by (rule float_result_in_range) (simp add: in_float_range_def)
  show ?thesis
    unfolding pga_at_unfold using True z float_result_in_range [OF m]
    by (simp add: math_sqrt_def float_pow_def)
next
  case False
  let ?s = "h\<^sup>2 + depth\<^sup>2"
  have n: "h\<^sup>2 \<noteq> 0 \<or> depth\<^sup>2 \<noteq> 0" using False by simp
  have h0: "0 \<le> h\<^sup>2" and d0: "0 \<le> depth\<^sup>2" by simp_all
  have lo: "2 * float_tiny \<le> ?s"
    using n h d h0 d0 float_tiny_pos unfolding in_float_range_def by auto
  have hi: "?s \<le> float_huge"
    using h d h0 d0 float_huge_gt_1 unfolding in_float_range_def by auto
  have pos: "0 < ?s" using lo float_tiny_pos by linarith
  then have sp: "0 < sqrt ?s" by simp
  have p: "float_pow (sqrt ?s) (- 1.607) = Inr (sqrt ?s powr (- 1.607))"
    using sp False float_result_in_range [OF slant_power_in_range [OF lo hi]]
    by (auto simp: float_pow_def)
  have q: "math_sqrt ?s = Inr (sqrt ?s)" using pos by (simp add: math_sqrt_def)
  have "pga_at h depth mag = Inr (predictedPGA h depth mag)"
    unfolding pga_at_unfold
    using float_result_in_range [OF h] float_result_in_range [OF d]
      float_result_in_range [OF m] p q
    by (simp add: predictedPGA_def Let_def)
  then show ?thesis using False by auto
qed

lemma pga_at_zero_slant:
  assumes h: "float_vanishes (h\<^sup>2)" and d: "float_vanishes (depth\<^sup>2)"
    and m: "in_float_range (exp (1.533 * mag))"
  shows "pga_at h depth mag = Inl ZeroDivisionError"
  unfolding pga_at_unfold
  using float_result_vanishes [OF h] float_result_vanishes [OF d] float_result_in_range [OF m]
  by (simp add: math_sqrt_def float_pow_def)

lemma pga_at_depth_overflows:
  assumes h: "h\<^sup>2 < float_huge" and d: "float_overflows (depth\<^sup>2)"
  shows "pga_at h depth mag = Inl OverflowError"
proof -
  have "0 \<le> h\<^sup>2" by simp
  then obtain h2 where "float_result (h\<^sup>2) = Inr h2"
    using h float_result_returns [of "h\<^sup>2"] by auto
  then show ?thesis
    unfolding pga_at_unfold using float_result_overflows [OF d] by simp
qed

lemma pga_at_exp_overflows:
  assumes h: "h\<^sup>2 < float_huge" and d: "in_float_range (depth\<^sup>2)"
    and m: "float_overflows (exp (1.533 * mag))"
  shows "pga_at h depth mag = Inl OverflowError"
proof -
  have "0 \<le> h\<^sup>2" by simp
  then obtain h2 where h2: "float_result (h\<^sup>2) = Inr h2"
    using h float_result_returns [of "h\<^sup>2"] by auto
  have "0 \<le> h2" using float_result_nonneg [OF h2] by simp
  then have "0 \<le> h2 + depth\<^sup>2" using zero_le_power2 [of depth] by linarith
  then have "math_sqrt (h2 + depth\<^sup>2) = Inr (sqrt (h2 + depth\<^sup>2))"
    by (simp add: math_sqrt_def)
  then show ?thesis
    unfolding pga_at_unfold
    using h2 float_result_in_range [OF d] float_result_overflows [OF m] by simp
qed

lemma pga_at_mono:
  assumes d0: "0 \<le> d1" and le: "d1 \<le> d2" and fin: "d2\<^sup>2 < float_huge"
    and a1: "pga_at d1 depth mag = Inr a1"
  shows "\<exists>a2. pga_at d2 depth mag = Inr a2 \<and> a2 \<le> a1"
proof -
  from a1 obtain h1 dd ex p1 where
    r1: "float_result (d1\<^sup>2) = Inr h1" and rd: "float_result (depth\<^sup>2) = Inr dd"
    and re: "float_result (exp (1.533 * mag)) = Inr ex"
    and q1: "math_sqrt (h1 + dd) = Inr (sqrt (h1 + dd))"
    and rp: "float_pow (sqrt (h1 + dd)) (- 1.607) = Inr p1"
    and v1: "a1 = 1.657 * ex * p1"
    unfolding pga_at_unfold by (auto simp: math_sqrt_def split: sum.splits if_splits)
  have sq: "d1\<^sup>2 \<le> d2\<^sup>2" using d0 le by (intro power_mono) simp_all
  from float_result_mono_up [OF _ sq fin r1] obtain h2 where
    r2: "float_result (d2\<^sup>2) = Inr h2" and h12: "h1 \<le> h2" by auto
  have h10: "0 \<le> h1" using float_result_nonneg [OF r1] by simp
  have dd0: "0 \<le> dd" using float_result_nonneg [OF rd] by simp
  have ex0: "0 \<le> ex" using float_result_nonneg [OF re] by simp
  have s1: "0 \<le> h1 + dd" using h10 dd0 by simp
  have nz: "sqrt (h1 + dd) \<noteq> 0" using rp by (auto simp: float_pow_def)
  then have pos1: "0 < sqrt (h1 + dd)" using s1 by simp
  have le12: "sqrt (h1 + dd) \<le> sqrt (h2 + dd)" using h12 by simp
  then have pos2: "0 < sqrt (h2 + dd)" using pos1 by linarith
  have f1: "float_result (sqrt (h1 + dd) powr (- 1.607)) = Inr p1"
    using rp pos1 by (simp add: float_pow_def)
  have "sqrt (h2 + dd) powr (- 1.607) \<le> sqrt (h1 + dd) powr (- 1.607)"
    using pos1 le12 by (intro powr_mono2') simp_all
  from float_result_mono [OF _ this f1] obtain p2 where
    f2: "float_result (sqrt (h2 + dd) powr (- 1.607)) = Inr p2" and p21: "p2 \<le> p1" by auto
  have rp2: "float_pow (sqrt (h2 + dd)) (- 1.607) = Inr p2"
    using f2 pos2 by (simp add: float_pow_def)
  have q2: "math_sqrt (h2 + dd) = Inr (sqrt (h2 + dd))"
    using h10 h12 dd0 by (simp add: math_sqrt_def)
  have "pga_at d2 depth mag = Inr (1.657 * ex * p2)"
    unfolding pga_at_unfold using r2 rd re q2 rp2 by simp
  moreover have "1.657 * ex * p2 \<le> 1.657 * ex * p1"
    using p21 ex0 by (intro mult_left_mono) simp_all
  ultimately show ?thesis unfolding v1 by blast
qed

section \<open>The velocity formula\<close>

lemma pgv_at_unfold:
  "pgv_at h depth mag =
     (case float_result (10 powr (0.5 * mag - 1.85)) of Inl e \<Rightarrow> Inl e | Inr p1 \<Rightarrow>
     (let long_term = p1 / 2.0 in
     (case float_result (depth\<^sup>2) of Inl e \<Rightarrow> Inl e | Inr d2 \<Rightarrow>
     (case float_result (h\<^sup>2) of Inl e \<Rightarrow> Inl e | Inr h2 \<Rightarrow>
     (case math_sqrt (d2 + h2) of Inl e \<Rightarrow> Inl e | Inr r \<Rightarrow>
     (let x = pgv_x r long_term in
     (case float_result (10 powr (0.5 * mag)) of Inl e \<Rightarrow> Inl e | Inr p \<Rightarrow>
     (let term = pgv_term x p in
     (case math_log10 term of Inl e \<Rightarrow> Inl e | Inr l \<Rightarrow>
     (case float_result (10 powr (0.58 * mag + 0.0038 * depth - 1.29 - l - 0.002 * x)) of
        Inl e \<Rightarrow> Inl e
      | Inr g \<Rightarrow> Inr (g * 1.31)))))))))))"
  unfolding pgv_at_def float_pow_square float_pow_ten by (rule refl)

lemma pgv_x_ge3: "3 \<le> pgv_x r long_term"
  by (simp add: pgv_x_def Let_def)

lemma pgv_term_ge3: "0 \<le> p \<Longrightarrow> 3 \<le> pgv_term (pgv_x r long_term) p"
  using pgv_x_ge3 [of r long_term] by (simp add: pgv_term_def)

lemma math_log10_term:
  assumes "0 \<le> p"
  shows "math_log10 (pgv_term (pgv_x r long_term) p) = Inr (log 10 (pgv_term (pgv_x r long_term) p))"
  using pgv_term_ge3 [OF assms, of r long_term] by (simp add: math_log10_def)

lemma math_sqrt_nonneg: "0 \<le> s \<Longrightarrow> math_sqrt s = Inr (sqrt s)"
  by (simp add: math_sqrt_def)

lemma pgv_at_in_range:
  assumes p1: "in_float_range (10 powr (0.5 * mag - 1.85))"
    and d: "in_float_range (depth\<^sup>2)" and h: "in_float_range (h\<^sup>2)"
    and p: "in_float_range (10 powr (0.5 * mag))"
    and g: "in_float_range (gpv600 h depth mag)"
  shows "pgv_at h depth mag = Inr (predictedPGV h depth mag)"
proof -
  let ?x = "pgv_x (sqrt (depth\<^sup>2 + h\<^sup>2)) (10 powr (0.5 * mag - 1.85) / 2)"
  let ?tm = "pgv_term ?x (10 powr (0.5 * mag))"
  have ge: "gpv600 h depth mag = 10 powr (0.58 * mag + 0.0038 * depth - 1.29 - log 10 ?tm - 0.002 * ?x)"
    by (simp add: gpv600_def Let_def pgv_x_def pgv_term_def)
  have l: "math_log10 ?tm = Inr (log 10 ?tm)"
    by (rule math_log10_term) simp
  have q: "math_sqrt (depth\<^sup>2 + h\<^sup>2) = Inr (sqrt (depth\<^sup>2 + h\<^sup>2))"
    by (rule math_sqrt_nonneg) simp
  have f: "float_result (10 powr (0.58 * mag + 0.0038 * depth - 1.29 - log 10 ?tm - 0.002 * ?x))
      = Inr (gpv600 h depth mag)"
    using float_result_in_range [OF g] unfolding ge .
  show ?thesis
    unfolding pgv_at_unfold
    using float_result_in_range [OF p1] float_result_in_range [OF d]
      float_result_in_range [OF h] float_result_in_range [OF p] q l f
    by (simp add: Let_def predictedPGV_def)
qed

lemma pgv_at_overflows:
  assumes "float_overflows (10 powr (0.5 * mag - 1.85))"
  shows "pgv_at h depth mag = Inl OverflowError"
  unfolding pgv_at_unfold using float_result_overflows [OF assms] by simp

lemma pgv_at_error:
  assumes "pgv_at h depth mag = Inl e"
  shows "e = OverflowError"
proof (cases "float_result (10 powr (0.5 * mag - 1.85))")
  case (Inl e1)
  then show ?thesis using assms float_result_error [OF Inl] unfolding pgv_at_unfold by simp
next
  case p1: (Inr p1)
  show ?thesis
  proof (cases "float_result (depth\<^sup>2)")
    case (Inl e1)
    then show ?thesis using assms p1 float_result_error [OF Inl] unfolding pgv_at_unfold by simp
  next
    case dd: (Inr dd)
    show ?thesis
    proof (cases "float_result (h\<^sup>2)")
      case (Inl e1)
      then show ?thesis using assms p1 dd float_result_error [OF Inl] unfolding pgv_at_unfold by simp
    next
      case h2: (Inr h2)
      have "0 \<le> dd" using float_result_nonneg [OF dd] by simp
      moreover have "0 \<le> h2" using float_result_nonneg [OF h2] by simp
      ultimately have q: "math_sqrt (dd + h2) = Inr (sqrt (dd + h2))"
        by (intro math_sqrt_nonneg) simp
      show ?thesis
      proof (cases "float_result (10 powr (0.5 * mag))")
        case (Inl e1)
        then show ?thesis
          using assms p1 dd h2 q float_result_error [OF Inl] unfolding pgv_at_unfold
          by (simp add: Let_def)
      next
        case p: (Inr p)
        have p0: "0 \<le> p" using float_result_nonneg [OF p] by simp
        note l = math_log10_term [OF p0, of "sqrt (dd + h2)" "p1 / 2"]
        let ?x = "pgv_x (sqrt (dd + h2)) (p1 / 2)"
        let ?E = "0.58 * mag + 0.0038 * depth - 1.29 - log 10 (pgv_term ?x p) - 0.002 * ?x"
        show ?thesis
        proof (cases "float_result (10 powr ?E)")
          case (Inl e1)
          then show ?thesis
            using assms p1 dd h2 q p l float_result_error [OF Inl] unfolding pgv_at_unfold
            by (simp add: Let_def)
        next
          case (Inr g)
          then show ?thesis
            using assms p1 dd h2 q p l unfolding pgv_at_unfold by (simp add: Let_def)
        qed
      qed
    qed
  qed
qed

lemma pgv_at_mono:
  assumes d0: "0 \<le> d1" and le: "d1 \<le> d2" and fin: "d2\<^sup>2 < float_huge"
    and v1: "pgv_at d1 depth mag = Inr v1"
  shows "\<exists>v2. pgv_at d2 depth mag = Inr v2 \<and> v2 \<le> v1"
proof -
  from v1 obtain p1 dd h1 p g1 where
    rp1: "float_result (10 powr (0.5 * mag - 1.85)) = Inr p1"
    and rd: "float_result (depth\<^sup>2) = Inr dd"
    and r1: "float_result (d1\<^sup>2) = Inr h1"
    and rp: "float_result (10 powr (0.5 * mag)) = Inr p"
    and rg: "float_result (10 powr (0.58 * mag + 0.0038 * depth - 1.29
               - log 10 (pgv_term (pgv_x (sqrt (dd + h1)) (p1 / 2)) p)
               - 0.002 * pgv_x (sqrt (dd + h1)) (p1 / 2))) = Inr g1"
    and e1: "v1 = g1 * 1.31"
    unfolding pgv_at_unfold
    by (auto simp: math_sqrt_def math_log10_def Let_def split: sum.splits if_splits)
  have sq: "d1\<^sup>2 \<le> d2\<^sup>2" using d0 le by (intro power_mono) simp_all
  from float_result_mono_up [OF _ sq fin r1] obtain h2 where
    r2: "float_result (d2\<^sup>2) = Inr h2" and h12: "h1 \<le> h2" by auto
  have h10: "0 \<le> h1" using float_result_nonneg [OF r1] by simp
  have dd0: "0 \<le> dd" using float_result_nonneg [OF rd] by simp
  have p0: "0 \<le> p" using float_result_nonneg [OF rp] by simp
  let ?x1 = "pgv_x (sqrt (dd + h1)) (p1 / 2)" and ?x2 = "pgv_x (sqrt (dd + h2)) (p1 / 2)"
  let ?c = "0.58 * mag + 0.0038 * depth - 1.29"
  have r12: "sqrt (dd + h1) \<le> sqrt (dd + h2)" using h12 by simp
  have x12: "?x1 \<le> ?x2" using r12 unfolding pgv_x_def Let_def by (intro max.mono) simp_all
  have t12: "pgv_term ?x1 p \<le> pgv_term ?x2 p" using x12 by (simp add: pgv_term_def)
  have t1: "0 < pgv_term ?x1 p" using pgv_term_ge3 [OF p0, of "sqrt (dd + h1)" "p1 / 2"] by linarith
  have "log 10 (pgv_term ?x1 p) \<le> log 10 (pgv_term ?x2 p)"
    using log_mono [of 10 "pgv_term ?x1 p" "pgv_term ?x2 p"] t1 t12 by simp
  then have "?c - log 10 (pgv_term ?x2 p) - 0.002 * ?x2 \<le> ?c - log 10 (pgv_term ?x1 p) - 0.002 * ?x1"
    using x12 by simp
  then have "(10::real) powr (?c - log 10 (pgv_term ?x2 p) - 0.002 * ?x2)
      \<le> 10 powr (?c - log 10 (pgv_term ?x1 p) - 0.002 * ?x1)"
    by (rule powr_mono) simp
  from float_result_mono [OF _ this rg] obtain g2 where
    rg2: "float_result (10 powr (?c - log 10 (pgv_term ?x2 p) - 0.002 * ?x2)) = Inr g2"
    and g21: "g2 \<le> g1" by auto
  have q2: "math_sqrt (dd + h2) = Inr (sqrt (dd + h2))"
    using h10 h12 dd0 by (intro math_sqrt_nonneg) simp
  note l2 = math_log10_term [OF p0, of "sqrt (dd + h2)" "p1 / 2"]
  have "pgv_at d2 depth mag = Inr (g2 * 1.31)"
    unfolding pgv_at_unfold using rp1 rd r2 q2 rp l2 rg2 by (simp add: Let_def)
  moreover have "g2 * 1.31 \<le> g1 * 1.31" using g21 by simp
  ultimately show ?thesis unfolding e1 by blast
qed

section \<open>Concrete values in and beyond the range\<close>

lemma ten_powr_overflows:
  assumes "400 \<le> a"
  shows "float_overflows (10 powr a)"
proof -
  have e: "(10::real) powr 400 = 10 ^ 400" by (subst powr_numeral) simp_all
  have "(10::real) powr 400 \<le> 10 powr a" using assms by (intro powr_mono) simp_all
  moreover have "2 * (2 ^ 1024 - 2 ^ 970) \<le> (10::real) ^ 400" by simp
  ultimately have "2 * float_huge \<le> 10 powr a" unfolding e float_huge_def by linarith
  moreover have "0 \<le> (10::real) powr a" by simp
  ultimately show ?thesis unfolding float_overflows_def by simp
qed

lemma exp_overflows:
  assumes "1500 \<le> x"
  shows "float_overflows (exp x)"
proof -
  have e: "exp (1500::real) = exp 1 ^ 1500"
    using exp_of_nat_mult [of 1500 "1::real"] by simp
  have "(2::real) \<le> exp 1" using exp_ge_add_one_self [of "1::real"] by simp
  then have "(2::real) ^ 1500 \<le> exp 1 ^ 1500" by (intro power_mono) simp_all
  moreover have "2 * (2 ^ 1024 - 2 ^ 970) \<le> (2::real) ^ 1500" by simp
  moreover have "exp 1500 \<le> exp x" using assms by simp
  ultimately have "2 * float_huge \<le> exp x" unfolding e float_huge_def by linarith
  moreover have "0 \<le> exp x" by simp
  ultimately show ?thesis unfolding float_overflows_def by simp
qed

lemma gpv600_in_range:
  assumes m: "\<bar>mag\<bar> \<le> 100" and d: "\<bar>depth\<bar> \<le> 1000" and h: "\<bar>h\<bar> \<le> 30000"
  shows "in_float_range (gpv600 h depth mag)"
proof -
  define lt where "lt = 10 powr (0.5 * mag - 1.85) / 2"
  define r where "r = sqrt (depth\<^sup>2 + h\<^sup>2)"
  define x where "x = max (r - lt) 3"
  define P where "P = 10 powr (0.5 * mag)"
  define tm where "tm = x + 0.0028 * P"
  have g: "gpv600 h depth mag = 10 powr (0.58 * mag + 0.0038 * depth - 1.29 - log 10 tm - 0.002 * x)"
    by (simp add: gpv600_def Let_def tm_def P_def x_def r_def lt_def)
  have "r \<le> \<bar>depth\<bar> + \<bar>h\<bar>" unfolding r_def by (rule sqrt_sum_squares_le_sum_abs)
  then have r: "r \<le> 31000" using d h by linarith
  have lt: "0 \<le> lt" unfolding lt_def by simp
  have x3: "3 \<le> x" unfolding x_def by simp
  have "r - lt \<le> 31000" using r lt by linarith
  then have xu: "x \<le> 31000" unfolding x_def by simp
  have e: "(10::real) powr 50 = 10 ^ 50" by (subst powr_numeral) simp_all
  have e': "(10::real) powr 51 = 10 ^ 51" by (subst powr_numeral) simp_all
  have "0.5 * mag \<le> 50" using m by simp
  then have "(10::real) powr (0.5 * mag) \<le> 10 powr 50" by (intro powr_mono) simp_all
  then have p: "P \<le> 10 ^ 50" unfolding e P_def .
  have p0: "0 \<le> P" unfolding P_def by simp
  then have "0 \<le> 0.0028 * P" by simp
  then have t3: "3 \<le> tm" unfolding tm_def using x3 by linarith
  have "tm \<le> 31000 + 0.0028 * 10 ^ 50"
    unfolding tm_def using xu p by (intro add_mono mult_left_mono) simp_all
  also have "\<dots> \<le> 10 ^ 51" by simp
  finally have tu: "tm \<le> 10 powr 51" unfolding e' .
  have l0: "0 \<le> log 10 tm" using t3 by (intro zero_le_log_cancel_iff [THEN iffD2]) simp_all
  have "log 10 tm \<le> log 10 (10 powr 51)" using t3 tu by (intro log_mono) simp_all
  also have "\<dots> = 51" by (rule log_powr_cancel) simp_all
  finally have lu: "log 10 tm \<le> 51" .
  have m': "- 100 \<le> mag \<and> mag \<le> 100" using m by linarith
  have d': "- 1000 \<le> depth \<and> depth \<le> 1000" using d by linarith
  show ?thesis
    unfolding g using l0 lu x3 xu m' d' by (intro ten_powr_in_range) simp_all
qed

lemma in_float_range_0: "in_float_range 0"
  by (simp add: in_float_range_def)

lemma in_float_range_1: "in_float_range 1"
  using two_powr_in_range [of 0] by simp

lemma haversine_quarter: "haversine 0 0 0 90 = Inr (6371 * (pi / 2))"
proof -
  have a: "haversine_a 0 0 0 90 = 1 / 2"
    by (simp add: haversine_a_def math_radians_def sin_45 power2_eq_square)
  show ?thesis
    by (simp add: haversine_def a math_sqrt_def math_atan2_def real_sqrt_divide arctan_one)
qed

lemma quarter_square_in_range: "in_float_range ((6371 * (pi / 2))\<^sup>2)"
proof (rule between_powers_in_range)
  have lo: "1 \<le> 6371 * (pi / 2)" using pi_ge_two by simp
  have hi: "6371 * (pi / 2) \<le> 25484" using pi_less_4 by simp
  have "1\<^sup>2 \<le> (6371 * (pi / 2))\<^sup>2" using lo by (intro power_mono) simp_all
  moreover have "(1::real) / 2 ^ 1000 \<le> 1" by simp
  ultimately show "2 powr (- 1000) \<le> (6371 * (pi / 2))\<^sup>2"
    unfolding two_powr_m1000 by simp
  have "(6371 * (pi / 2))\<^sup>2 \<le> 25484\<^sup>2" using lo hi by (intro power_mono) simp_all
  moreover have "(25484::real)\<^sup>2 \<le> 2 ^ 1000" by simp
  ultimately show "(6371 * (pi / 2))\<^sup>2 \<le> 2 powr 1000"
    unfolding two_powr_1000 by linarith
qed

section \<open>Properties of the attenuation formulas\<close>

text \<open>
  C2, as amended. Where \<open>haversine\<close> returns the distance \<open>h\<close>, and the four powers of
  \<open>predict_pgv\<close> and \<open>gpv600\<close> lie in the double range, \<open>predict_pgv\<close> returns the
  closed form of the specification, \<open>gpv600\<close> times 1.31, with the distance floor
  \<open>x = max hypoDist 3\<close> and \<open>term = x + 0.0028 * 10 powr (0.5 * magnitude)\<close>. Where
  the first power, \<open>10 powr (0.5 * magnitude - 1.85)\<close>, is beyond the range,
  \<open>predict_pgv\<close> raises \<^verbatim>\<open>OverflowError\<close>.
\<close>

theorem predict_pgv_formula:
  "(haversine epi_lon epi_lat sta_lon sta_lat = Inr h
      \<and> in_float_range (10 powr (0.5 * mag - 1.85)) \<and> in_float_range (depth\<^sup>2)
      \<and> in_float_range (h\<^sup>2) \<and> in_float_range (10 powr (0.5 * mag))
      \<and> in_float_range (gpv600 h depth mag) \<longrightarrow>
      predict_pgv sta_lon sta_lat epi_lon epi_lat depth mag = Inr (predictedPGV h depth mag))
   \<and> (haversine epi_lon epi_lat sta_lon sta_lat = Inr h
      \<and> float_overflows (10 powr (0.5 * mag - 1.85)) \<longrightarrow>
      predict_pgv sta_lon sta_lat epi_lon epi_lat depth mag = Inl OverflowError)"
  by (simp add: predict_pgv_def pgv_at_in_range pgv_at_overflows)

theorem predict_pgv_formula_witness:
  "haversine 121 23.5 121 23.5 = Inr 0
   \<and> in_float_range (10 powr (0.5 * 6.4 - 1.85)) \<and> in_float_range (10\<^sup>2)
   \<and> in_float_range (0\<^sup>2) \<and> in_float_range (10 powr (0.5 * 6.4))
   \<and> in_float_range (gpv600 0 10 6.4)
   \<and> predict_pgv 121 23.5 121 23.5 10 6.4 = Inr (predictedPGV 0 10 6.4)
   \<and> float_overflows (10 powr (0.5 * 2000 - 1.85))
   \<and> predict_pgv 121 23.5 121 23.5 10 2000 = Inl OverflowError"
proof -
  have h: "haversine 121 23.5 121 23.5 = Inr 0" by (rule haversine_same)
  have p1: "in_float_range (10 powr (0.5 * 6.4 - 1.85))" by (rule ten_powr_in_range) simp_all
  have d: "in_float_range ((10::real)\<^sup>2)" using ten_powr_in_range [of 2] by simp
  have z: "in_float_range ((0::real)\<^sup>2)" by (simp add: in_float_range_0)
  have p: "in_float_range (10 powr (0.5 * 6.4))" by (rule ten_powr_in_range) simp_all
  have g: "in_float_range (gpv600 0 10 6.4)" by (rule gpv600_in_range) simp_all
  have o: "float_overflows (10 powr (0.5 * 2000 - 1.85))" by (rule ten_powr_overflows) simp
  show ?thesis
    using predict_pgv_formula [of 121 "23.5" 121 "23.5" 0 "6.4" 10]
      predict_pgv_formula [of 121 "23.5" 121 "23.5" 0 2000 10] h p1 d z p g o
    by blast
qed

text \<open>
  C2 as stated fails: at magnitude 1000 the power \<^verbatim>\<open>10 ** 498.15\<close> is beyond the double
  range, \<^verbatim>\<open>predict_pgv\<close> raises \<^verbatim>\<open>OverflowError\<close> and returns no value.
\<close>

theorem predict_pgv_overflow_counterexample:
  "predict_pgv 121 23.5 121 23.5 10 1000 = Inl OverflowError"
proof -
  have "float_overflows (10 powr (0.5 * 1000 - 1.85))" by (rule ten_powr_overflows) simp
  then show ?thesis by (simp add: predict_pgv_def haversine_same pgv_at_overflows)
qed

text \<open>
  C3, as amended. Where \<open>haversine\<close> returns the distance \<open>h\<close>, and the two squares
  and the exponential lie in the double range, \<open>predict_pga\<close> returns the closed form
  \<open>1.657 * exp (1.533 * magnitude) * slantDist powr (- 1.607)\<close> if the slant distance is
  not zero, and raises \<^verbatim>\<open>ZeroDivisionError\<close> if it is zero (station at the epicenter,
  depth 0). It raises \<^verbatim>\<open>ZeroDivisionError\<close> too where both squares are below the range,
  and \<^verbatim>\<open>OverflowError\<close> where the square of the depth, or the exponential, is beyond it.
\<close>

theorem predict_pga_formula:
  "(haversine epi_lon epi_lat sta_lon sta_lat = Inr h
      \<and> in_float_range (h\<^sup>2) \<and> in_float_range (depth\<^sup>2)
      \<and> in_float_range (exp (1.533 * mag)) \<longrightarrow>
      predict_pga sta_lon sta_lat epi_lon epi_lat depth mag =
        (if h = 0 \<and> depth = 0 then Inl ZeroDivisionError
         else Inr (predictedPGA h depth mag)))
   \<and> (haversine epi_lon epi_lat sta_lon sta_lat = Inr h
      \<and> float_vanishes (h\<^sup>2) \<and> float_vanishes (depth\<^sup>2)
      \<and> in_float_range (exp (1.533 * mag)) \<longrightarrow>
      predict_pga sta_lon sta_lat epi_lon epi_lat depth mag = Inl ZeroDivisionError)
   \<and> (haversine epi_lon epi_lat sta_lon sta_lat = Inr h
      \<and> float_overflows (depth\<^sup>2) \<longrightarrow>
      predict_pga sta_lon sta_lat epi_lon epi_lat depth mag = Inl OverflowError)
   \<and> (haversine epi_lon epi_lat sta_lon sta_lat = Inr h
      \<and> in_float_range (depth\<^sup>2) \<and> in_float_range (1.533 * mag)
      \<and> float_overflows (exp (1.533 * mag)) \<longrightarrow>
      predict_pga sta_lon sta_lat epi_lon epi_lat depth mag = Inl OverflowError)"
proof -
  have a: "haversine epi_lon epi_lat sta_lon sta_lat = Inr h
      \<and> in_float_range (h\<^sup>2) \<and> in_float_range (depth\<^sup>2)
      \<and> in_float_range (exp (1.533 * mag)) \<longrightarrow>
      predict_pga sta_lon sta_lat epi_lon epi_lat depth mag =
        (if h = 0 \<and> depth = 0 then Inl ZeroDivisionError
         else Inr (predictedPGA h depth mag))"
    by (simp add: predict_pga_def pga_at_in_range)
  have b: "haversine epi_lon epi_lat sta_lon sta_lat = Inr h
      \<and> float_vanishes (h\<^sup>2) \<and> float_vanishes (depth\<^sup>2)
      \<and> in_float_range (exp (1.533 * mag)) \<longrightarrow>
      predict_pga sta_lon sta_lat epi_lon epi_lat depth mag = Inl ZeroDivisionError"
    by (simp add: predict_pga_def pga_at_zero_slant)
  have c: "haversine epi_lon epi_lat sta_lon sta_lat = Inr h
      \<and> float_overflows (depth\<^sup>2) \<longrightarrow>
      predict_pga sta_lon sta_lat epi_lon epi_lat depth mag = Inl OverflowError"
    using haversine_square [of epi_lon epi_lat sta_lon sta_lat h]
    by (auto simp: predict_pga_def pga_at_depth_overflows)
  have d: "haversine epi_lon epi_lat sta_lon sta_lat = Inr h
      \<and> in_float_range (depth\<^sup>2) \<and> in_float_range (1.533 * mag)
      \<and> float_overflows (exp (1.533 * mag)) \<longrightarrow>
      predict_pga sta_lon sta_lat epi_lon epi_lat depth mag = Inl OverflowError"
    using haversine_square [of epi_lon epi_lat sta_lon sta_lat h]
    by (auto simp: predict_pga_def pga_at_exp_overflows)
  show ?thesis using a b c d by blast
qed

theorem predict_pga_formula_witness:
  "haversine 121 23.5 121 23.5 = Inr 0
   \<and> in_float_range (0\<^sup>2) \<and> in_float_range (10\<^sup>2) \<and> in_float_range (exp (1.533 * 6.4))
   \<and> predict_pga 121 23.5 121 23.5 10 6.4 = Inr (predictedPGA 0 10 6.4)
   \<and> float_vanishes (0\<^sup>2) \<and> float_vanishes ((1 / 10 ^ 200)\<^sup>2)
   \<and> predict_pga 121 23.5 121 23.5 (1 / 10 ^ 200) 6.4 = Inl ZeroDivisionError
   \<and> float_overflows ((10 ^ 200)\<^sup>2)
   \<and> predict_pga 121 23.5 121 23.5 (10 ^ 200) 6.4 = Inl OverflowError
   \<and> in_float_range (1.533 * 1000) \<and> float_overflows (exp (1.533 * 1000))
   \<and> predict_pga 121 23.5 121 23.5 10 1000 = Inl OverflowError"
proof -
  have h: "haversine 121 23.5 121 23.5 = Inr 0" by (rule haversine_same)
  have z: "in_float_range ((0::real)\<^sup>2)" by (simp add: in_float_range_0)
  have d: "in_float_range ((10::real)\<^sup>2)" using ten_powr_in_range [of 2] by simp
  have m: "in_float_range (exp (1.533 * 6.4))" by (rule exp_in_range) simp_all
  have v0: "float_vanishes ((0::real)\<^sup>2)" by (simp add: float_vanishes_def float_tiny_def)
  have v: "float_vanishes (((1::real) / 10 ^ 200)\<^sup>2)"
    by (simp add: float_vanishes_def float_tiny_def power_divide)
  have o: "float_overflows (((10::real) ^ 200)\<^sup>2)"
    by (simp add: float_overflows_def float_huge_def)
  have p: "in_float_range (1.533 * 1000)"
    by (rule between_powers_in_range) (simp_all add: two_powr_1000 two_powr_m1000)
  have e: "float_overflows (exp (1.533 * 1000))" by (rule exp_overflows) simp
  have a: "predict_pga 121 23.5 121 23.5 10 6.4 = Inr (predictedPGA 0 10 6.4)"
    using predict_pga_formula [of 121 "23.5" 121 "23.5" 0 10 "6.4"] h z d m by simp
  show ?thesis
    using a predict_pga_formula [of 121 "23.5" 121 "23.5" 0 "1 / 10 ^ 200" "6.4"]
      predict_pga_formula [of 121 "23.5" 121 "23.5" 0 "10 ^ 200" "6.4"]
      predict_pga_formula [of 121 "23.5" 121 "23.5" 0 10 1000] h z d m v0 v o p e
    by blast
qed

text \<open>
  C3 as stated fails: a station at the epicenter with depth 0 has slant distance 0, and
  \<^verbatim>\<open>0.0 ** -1.607\<close> raises, so no value is returned.
\<close>

theorem predict_pga_zero_slant_counterexample:
  "predict_pga 121 23.5 121 23.5 0 6.4 = Inl ZeroDivisionError"
proof -
  have z: "in_float_range ((0::real)\<^sup>2)" by (simp add: in_float_range_0)
  have m: "in_float_range (exp (1.533 * 6.4))" by (rule exp_in_range) simp_all
  have "pga_at 0 0 6.4 = Inl ZeroDivisionError" using pga_at_in_range [OF z z m] by simp
  then show ?thesis unfolding predict_pga_def haversine_same by simp
qed

text \<open>
  C5, as amended. Two stations at great-circle distances \<open>d1 \<le> d2\<close> from the same
  epicenter, same depth and magnitude: whenever \<open>predict_pga\<close> returns a value at \<open>d1\<close>,
  it returns one at \<open>d2\<close> that is not larger; and whenever \<open>predict_pgv\<close> returns a
  value at \<open>d1\<close>, it returns one at \<open>d2\<close> that is not larger.
\<close>

theorem predicted_motion_monotone:
  assumes h1: "haversine epi_lon epi_lat lon1 lat1 = Inr d1"
    and h2: "haversine epi_lon epi_lat lon2 lat2 = Inr d2"
    and le: "d1 \<le> d2"
  shows "(predict_pga lon1 lat1 epi_lon epi_lat depth mag = Inr a1 \<longrightarrow>
            (\<exists>a2. predict_pga lon2 lat2 epi_lon epi_lat depth mag = Inr a2 \<and> a2 \<le> a1))
       \<and> (predict_pgv lon1 lat1 epi_lon epi_lat depth mag = Inr v1 \<longrightarrow>
            (\<exists>v2. predict_pgv lon2 lat2 epi_lon epi_lat depth mag = Inr v2 \<and> v2 \<le> v1))"
proof -
  have d0: "0 \<le> d1" using haversine_range [OF h1] by simp
  note fin = haversine_square [OF h2]
  show ?thesis
    unfolding predict_pga_def predict_pgv_def h1 h2
    using pga_at_mono [OF d0 le fin] pgv_at_mono [OF d0 le fin] by simp
qed

theorem predicted_motion_monotone_witness:
  "haversine 0 0 0 0 = Inr 0 \<and> haversine 0 0 0 90 = Inr (6371 * (pi / 2))
   \<and> (0::real) \<le> 6371 * (pi / 2)
   \<and> predict_pga 0 0 0 0 1 0 = Inr (predictedPGA 0 1 0)
   \<and> (\<exists>a2. predict_pga 0 90 0 0 1 0 = Inr a2 \<and> a2 \<le> predictedPGA 0 1 0)
   \<and> predict_pgv 0 0 0 0 1 0 = Inr (predictedPGV 0 1 0)
   \<and> (\<exists>v2. predict_pgv 0 90 0 0 1 0 = Inr v2 \<and> v2 \<le> predictedPGV 0 1 0)"
proof -
  have h1: "haversine 0 0 0 0 = Inr 0" by (rule haversine_same)
  note h2 = haversine_quarter
  have le: "(0::real) \<le> 6371 * (pi / 2)" by simp
  have z: "in_float_range ((0::real)\<^sup>2)" by (simp add: in_float_range_0)
  have o: "in_float_range ((1::real)\<^sup>2)" by (simp add: in_float_range_1)
  have m: "in_float_range (exp (1.533 * 0))" by (simp add: in_float_range_1)
  have a1: "predict_pga 0 0 0 0 1 0 = Inr (predictedPGA 0 1 0)"
    by (simp add: predict_pga_def h1 pga_at_in_range [OF z o m])
  have p1: "in_float_range (10 powr (0.5 * 0 - 1.85))" by (rule ten_powr_in_range) simp_all
  have p: "in_float_range (10 powr (0.5 * 0))" by (simp add: in_float_range_1)
  have g: "in_float_range (gpv600 0 1 0)" by (rule gpv600_in_range) simp_all
  have v1: "predict_pgv 0 0 0 0 1 0 = Inr (predictedPGV 0 1 0)"
    by (simp add: predict_pgv_def h1 pgv_at_in_range [OF p1 o z p g])
  show ?thesis
    using predicted_motion_monotone [OF h1 h2 le, of 1 0 "predictedPGA 0 1 0" "predictedPGV 0 1 0"]
      h1 h2 le a1 v1
    by blast
qed

text \<open>
  C5 as stated fails: at depth 0 the nearer of two stations, at distance 0, has no
  predicted acceleration (\<^verbatim>\<open>predict_pga\<close> raises), while the farther one has.
\<close>

theorem predicted_motion_undefined_counterexample:
  "haversine 0 0 0 0 = Inr 0 \<and> haversine 0 0 0 90 = Inr (6371 * (pi / 2))
   \<and> (0::real) \<le> 6371 * (pi / 2)
   \<and> predict_pga 0 0 0 0 0 0 = Inl ZeroDivisionError
   \<and> predict_pga 0 90 0 0 0 0 = Inr (predictedPGA (6371 * (pi / 2)) 0 0)"
proof -
  have h1: "haversine 0 0 0 0 = Inr 0" by (rule haversine_same)
  note h2 = haversine_quarter
  have le: "(0::real) \<le> 6371 * (pi / 2)" by simp
  have z: "in_float_range ((0::real)\<^sup>2)" by (simp add: in_float_range_0)
  have m: "in_float_range (exp (1.533 * 0))" by (simp add: in_float_range_1)
  have "pga_at 0 0 0 = Inl ZeroDivisionError" using pga_at_in_range [OF z z m] by simp
  then have a1: "predict_pga 0 0 0 0 0 0 = Inl ZeroDivisionError"
    unfolding predict_pga_def h1 by simp
  have nz: "6371 * (pi / 2) \<noteq> 0" by simp
  have "pga_at (6371 * (pi / 2)) 0 0 = Inr (predictedPGA (6371 * (pi / 2)) 0 0)"
    using pga_at_in_range [OF quarter_square_in_range z m] nz by simp
  then have a2: "predict_pga 0 90 0 0 0 0 = Inr (predictedPGA (6371 * (pi / 2)) 0 0)"
    unfolding predict_pga_def h2 by simp
  show ?thesis using h1 h2 le a1 a2 by blast
qed

text \<open>
  C9. The argument of \<open>log10\<close> in \<open>predict_pgv\<close> is at least 3, hence positive, whatever
  the square root \<open>r\<close> and \<open>long_term\<close> are and whatever power \<open>p\<close> the expression
  \<^verbatim>\<open>10 ** (0.5 * mag)\<close> returned, for every magnitude; \<open>math_log10\<close> does not raise on it,
  and where \<open>haversine\<close> returns, \<open>predict_pgv\<close> does not raise \<^verbatim>\<open>ValueError\<close>.
\<close>

theorem pgv_log_argument_positive:
  "(float_pow 10 (0.5 * mag) = Inr p \<longrightarrow>
      0 \<le> p \<and> 3 \<le> pgv_term (pgv_x r long_term) p \<and> 0 < pgv_term (pgv_x r long_term) p
      \<and> math_log10 (pgv_term (pgv_x r long_term) p)
          = Inr (log 10 (pgv_term (pgv_x r long_term) p)))
   \<and> (haversine epi_lon epi_lat sta_lon sta_lat = Inr h \<longrightarrow>
      predict_pgv sta_lon sta_lat epi_lon epi_lat depth mag \<noteq> Inl ValueError)"
proof -
  have a: "float_pow 10 (0.5 * mag) = Inr p \<longrightarrow>
      0 \<le> p \<and> 3 \<le> pgv_term (pgv_x r long_term) p \<and> 0 < pgv_term (pgv_x r long_term) p
      \<and> math_log10 (pgv_term (pgv_x r long_term) p)
          = Inr (log 10 (pgv_term (pgv_x r long_term) p))"
  proof
    assume "float_pow 10 (0.5 * mag) = Inr p"
    then have "float_result (10 powr (0.5 * mag)) = Inr p" unfolding float_pow_ten .
    then have p0: "0 \<le> p" using float_result_nonneg [of "10 powr (0.5 * mag)" p] by simp
    note t = pgv_term_ge3 [OF p0, of r long_term]
    then have "0 < pgv_term (pgv_x r long_term) p" by linarith
    with p0 t math_log10_term [OF p0, of r long_term]
    show "0 \<le> p \<and> 3 \<le> pgv_term (pgv_x r long_term) p \<and> 0 < pgv_term (pgv_x r long_term) p
      \<and> math_log10 (pgv_term (pgv_x r long_term) p)
          = Inr (log 10 (pgv_term (pgv_x r long_term) p))"
      by simp
  qed
  have b: "haversine epi_lon epi_lat sta_lon sta_lat = Inr h \<longrightarrow>
      predict_pgv sta_lon sta_lat epi_lon epi_lat depth mag \<noteq> Inl ValueError"
    using pgv_at_error [of h depth mag ValueError] by (auto simp: predict_pgv_def)
  show ?thesis using a b by blast
qed

theorem pgv_log_argument_positive_witness:
  "float_pow 10 (0.5 * 0) = Inr 1
   \<and> 3 \<le> pgv_term (pgv_x 5 1) 1
   \<and> math_log10 (pgv_term (pgv_x 5 1) 1) = Inr (log 10 (pgv_term (pgv_x 5 1) 1))
   \<and> haversine 121 23.5 121 23.5 = Inr 0
   \<and> predict_pgv 121 23.5 121 23.5 10 0 \<noteq> Inl ValueError"
proof -
  have p: "float_pow 10 (0.5 * 0) = Inr 1" by (simp add: float_pow_def)
  have h: "haversine 121 23.5 121 23.5 = Inr 0" by (rule haversine_same)
  show ?thesis
    using pgv_log_argument_positive [of 0 1 5 1 121 "23.5" 121 "23.5" 0 10] p h by blast
qed

section \<open>The station parser\<close>

lemma py_split_nonempty: "py_split sep s \<noteq> []"
  by (induction sep s rule: py_split.induct) (auto split: list.splits)

lemma update_as_map:
  "distinct (map fst al) \<Longrightarrow> map_of al k = Some w \<Longrightarrow>
   AList.update k v al = map (\<lambda>(a, b). if a = k then (a, v) else (a, b)) al"
proof (induction al)
  case Nil
  then show ?case by simp
next
  case (Cons p ps)
  show ?case
  proof (cases "fst p = k")
    case True
    with Cons.prems have "k \<notin> fst ` set ps" by auto
    then have "map (\<lambda>(a, b). if a = k then (a, v) else (a, b)) ps = ps"
      by (induction ps) auto
    with True show ?thesis by (cases p) simp
  next
    case False
    with Cons show ?thesis by (cases p) auto
  qed
qed

lemma numbers_at_keys: "map fst (numbers_at ks st) = map fst st"
  by (induction st) (auto simp: numbers_at_def)

lemma map_of_numbers_at:
  "map_of (numbers_at ks st) k = (if k \<in> set ks then map_option to_number (map_of st k) else map_of st k)"
  by (induction st) (auto simp: numbers_at_def)

lemma to_number_idem: "to_number (to_number v) = to_number v"
  by (auto simp: to_number_def split: pyval.splits sum.splits)

lemma numbers_at_append: "numbers_at ks (numbers_at ks' st) = numbers_at (ks' @ ks) st"
  by (induction st) (auto simp: numbers_at_def to_number_idem)

lemma float_field_ok:
  assumes "distinct (map fst st)" and "map_of st k = Some (Str s)" and "py_float s = Inr x"
  shows "float_field k st = Inr (numbers_at [k] st)"
proof -
  have only: "\<forall>b. (k, b) \<in> set st \<longrightarrow> b = Str s"
    using assms(1,2) by (metis map_of_is_SomeI option.inject)
  have tn: "to_number (Str s) = Flt x"
    using assms(3) by (simp add: to_number_def)
  have "map (\<lambda>(a, b). if a = k then (a, Flt x) else (a, b)) st = numbers_at [k] st"
    unfolding numbers_at_def
  proof (rule map_cong [OF refl])
    fix p assume mem: "p \<in> set st"
    obtain a b where p: "p = (a, b)" by (cases p)
    show "(case p of (a, b) \<Rightarrow> if a = k then (a, Flt x) else (a, b))
        = (case p of (a, b) \<Rightarrow> if a \<in> set [k] then (a, to_number b) else (a, b))"
      using only tn mem unfolding p by auto
  qed
  then show ?thesis
    using assms update_as_map [OF assms(1,2), of "Flt x"] by (simp add: float_field_def)
qed

lemma float_field_fails:
  "map_of st k = Some (Str s) \<Longrightarrow> py_float s = Inl e \<Longrightarrow> float_field k st = Inl e"
  by (simp add: float_field_def)

lemma parse_fields_distinct:
  "distinct (map fst st) \<Longrightarrow> distinct (map fst (parse_fields fs st))"
  by (induction fs arbitrary: st) (auto simp: Let_def distinct_update split: prod.splits)

lemma parse_fields_Str:
  "\<forall>p \<in> set st. \<exists>s. snd p = Str s \<Longrightarrow> \<forall>p \<in> set (parse_fields fs st). \<exists>s. snd p = Str s"
proof (induction fs arbitrary: st)
  case Nil
  then show ?case by simp
next
  case (Cons f fs)
  have upd: "\<And>k s. \<forall>p \<in> set (AList.update k (Str s) st). \<exists>s. snd p = Str s"
  proof
    fix k s p assume "p \<in> set (AList.update k (Str s) st)"
    then have "p = (k, Str s) \<or> p \<in> set st"
      by (induction st) (auto split: if_splits)
    with Cons.prems show "\<exists>s. snd p = Str s" by auto
  qed
  show ?case
    using Cons.IH [OF upd] Cons.IH [OF Cons.prems]
    by (simp add: Let_def split: prod.splits) fastforce
qed

lemma segment_record_distinct: "distinct (map fst (segment_record part))"
  unfolding segment_record_def by (rule parse_fields_distinct) simp

lemma segment_record_Str: "(k, v) \<in> set (segment_record part) \<Longrightarrow> \<exists>s. v = Str s"
  using parse_fields_Str [of "[]" "py_split (ascii '','') (ascii ''Stacode='' @ part)"]
  unfolding segment_record_def by fastforce

lemma float_field_step:
  assumes "distinct (map fst st)" and "map_of st k = Some (Str s)"
  shows "float_field k st = (case py_float s of Inl e \<Rightarrow> Inl e | Inr x \<Rightarrow> Inr (numbers_at [k] st))"
  using float_field_ok [OF assms] float_field_fails [OF assms(2)]
  by (cases "py_float s") simp_all

lemma float_field_step_numbers:
  assumes "distinct (map fst st)" and "map_of st k = Some (Str s)" and "k \<notin> set ks"
  shows "float_field k (numbers_at ks st)
       = (case py_float s of Inl e \<Rightarrow> Inl e | Inr x \<Rightarrow> Inr (numbers_at (ks @ [k]) st))"
proof -
  have d: "distinct (map fst (numbers_at ks st))" using assms(1) by (simp add: numbers_at_keys)
  have m: "map_of (numbers_at ks st) k = Some (Str s)"
    using assms(2,3) by (simp add: map_of_numbers_at)
  show ?thesis
    unfolding float_field_step [OF d m] by (simp add: numbers_at_append split: sum.splits)
qed

lemma numeric_keys_distinct:
  "ascii ''Stalon'' \<noteq> ascii ''Stalat''" "ascii ''Stalon'' \<noteq> ascii ''PGA(SUM)''"
  "ascii ''Stalon'' \<noteq> ascii ''PGV(SUM)''" "ascii ''Stalat'' \<noteq> ascii ''PGA(SUM)''"
  "ascii ''Stalat'' \<noteq> ascii ''PGV(SUM)''" "ascii ''PGA(SUM)'' \<noteq> ascii ''PGV(SUM)''"
  by (simp_all add: ascii_def)

lemma convert_numeric_unfold:
  assumes d: "distinct (map fst st)"
    and m1: "map_of st (ascii ''Stalon'') = Some (Str s1)"
    and m2: "map_of st (ascii ''Stalat'') = Some (Str s2)"
    and m3: "map_of st (ascii ''PGA(SUM)'') = Some (Str s3)"
    and m4: "map_of st (ascii ''PGV(SUM)'') = Some (Str s4)"
  shows "convert_numeric st =
     (case py_float s1 of Inl e \<Rightarrow> Inl e | Inr x1 \<Rightarrow>
     (case py_float s2 of Inl e \<Rightarrow> Inl e | Inr x2 \<Rightarrow>
     (case py_float s3 of Inl e \<Rightarrow> Inl e | Inr x3 \<Rightarrow>
     (case py_float s4 of Inl e \<Rightarrow> Inl e | Inr x4 \<Rightarrow> Inr (as_numbers st)))))"
proof -
  have f1: "float_field (ascii ''Stalon'') st
      = (case py_float s1 of Inl e \<Rightarrow> Inl e | Inr x \<Rightarrow> Inr (numbers_at [ascii ''Stalon''] st))"
    by (rule float_field_step [OF d m1])
  have f2: "float_field (ascii ''Stalat'') (numbers_at [ascii ''Stalon''] st)
      = (case py_float s2 of Inl e \<Rightarrow> Inl e
         | Inr x \<Rightarrow> Inr (numbers_at [ascii ''Stalon'', ascii ''Stalat''] st))"
    using float_field_step_numbers [OF d m2, of "[ascii ''Stalon'']"] numeric_keys_distinct
    by (simp split: sum.splits)
  have f3: "float_field (ascii ''PGA(SUM)'') (numbers_at [ascii ''Stalon'', ascii ''Stalat''] st)
      = (case py_float s3 of Inl e \<Rightarrow> Inl e
         | Inr x \<Rightarrow> Inr (numbers_at [ascii ''Stalon'', ascii ''Stalat'', ascii ''PGA(SUM)''] st))"
    using float_field_step_numbers [OF d m3, of "[ascii ''Stalon'', ascii ''Stalat'']"]
      numeric_keys_distinct by (simp split: sum.splits)
  have f4: "float_field (ascii ''PGV(SUM)'')
        (numbers_at [ascii ''Stalon'', ascii ''Stalat'', ascii ''PGA(SUM)''] st)
      = (case py_float s4 of Inl e \<Rightarrow> Inl e | Inr x \<Rightarrow> Inr (as_numbers st))"
    using float_field_step_numbers [OF d m4,
        of "[ascii ''Stalon'', ascii ''Stalat'', ascii ''PGA(SUM)'']"]
      numeric_keys_distinct by (simp add: as_numbers_def numeric_keys_def split: sum.splits)
  show ?thesis
    unfolding convert_numeric_def f1
    by (simp add: f2 f3 f4 split: sum.splits)
qed

lemma convert_numeric_usable:
  assumes d: "distinct (map fst st)"
    and str: "\<forall>p \<in> set st. \<exists>s. snd p = Str s"
    and req: "has_required st"
  shows "(floats_parse st \<longrightarrow> convert_numeric st = Inr (as_numbers st))
       \<and> (\<not> floats_parse st \<longrightarrow> (\<exists>e. convert_numeric st = Inl e))"
proof -
  have look: "\<And>k. k \<in> set required \<Longrightarrow> \<exists>s. map_of st k = Some (Str s)"
  proof -
    fix k assume "k \<in> set required"
    with req have "k \<in> fst ` set st" by (simp add: has_required_def)
    then obtain v where v: "map_of st k = Some v"
      by (metis domD dom_map_of_conv_image_fst)
    then have "(k, v) \<in> set st" by (rule map_of_SomeD)
    with str obtain s where "v = Str s" by fastforce
    with v show "\<exists>s. map_of st k = Some (Str s)" by simp
  qed
  obtain s1 where m1: "map_of st (ascii ''Stalon'') = Some (Str s1)"
    using look [of "ascii ''Stalon''"] by (auto simp: required_def)
  obtain s2 where m2: "map_of st (ascii ''Stalat'') = Some (Str s2)"
    using look [of "ascii ''Stalat''"] by (auto simp: required_def)
  obtain s3 where m3: "map_of st (ascii ''PGA(SUM)'') = Some (Str s3)"
    using look [of "ascii ''PGA(SUM)''"] by (auto simp: required_def)
  obtain s4 where m4: "map_of st (ascii ''PGV(SUM)'') = Some (Str s4)"
    using look [of "ascii ''PGV(SUM)''"] by (auto simp: required_def)
  have fp: "floats_parse st \<longleftrightarrow>
      (\<exists>x1. py_float s1 = Inr x1) \<and> (\<exists>x2. py_float s2 = Inr x2)
      \<and> (\<exists>x3. py_float s3 = Inr x3) \<and> (\<exists>x4. py_float s4 = Inr x4)"
    by (simp add: floats_parse_def numeric_keys_def m1 m2 m3 m4)
  show ?thesis
    unfolding convert_numeric_unfold [OF d m1 m2 m3 m4] fp
    by (auto split: sum.splits)
qed

lemma stations_loop_filter:
  "stations_loop parts stations
     = stations @ map as_numbers (filter usable (map segment_record parts))"
proof (induction parts arbitrary: stations)
  case Nil
  then show ?case by simp
next
  case (Cons part parts)
  let ?st = "segment_record part"
  have req: "list_all (\<lambda>k. k \<in> fst ` set ?st) required \<longleftrightarrow> has_required ?st"
    by (simp add: has_required_def list_all_iff)
  have str: "\<forall>p \<in> set ?st. \<exists>s. snd p = Str s"
    using segment_record_Str [of _ _ part] by auto
  show ?case
  proof (cases "has_required ?st")
    case False
    then show ?thesis
      using req Cons.IH by (simp add: usable_def segment_record_def Let_def)
  next
    case True
    note cu = convert_numeric_usable [OF segment_record_distinct str True]
    show ?thesis
    proof (cases "floats_parse ?st")
      case fp: True
      with cu have "convert_numeric ?st = Inr (as_numbers ?st)" by simp
      then show ?thesis
        using req True fp Cons.IH [of "stations @ [as_numbers ?st]"]
        by (simp add: usable_def segment_record_def Let_def)
    next
      case fp: False
      with cu obtain e where "convert_numeric ?st = Inl e" by auto
      then show ?thesis
        using req True fp Cons.IH [of stations]
        by (simp add: usable_def segment_record_def Let_def)
    qed
  qed
qed

lemma py_split_join:
  "sep \<noteq> [] \<Longrightarrow> py_split sep s = part0 # parts \<Longrightarrow> s = part0 @ concat (map ((@) sep) parts)"
proof (induction sep s arbitrary: part0 parts rule: py_split.induct)
  case (1 sep)
  then show ?case by simp
next
  case (2 sep c cs)
  show ?case
  proof (cases "prefix sep (c # cs)")
    case True
    with "2.prems" have p0: "part0 = []" and ps: "parts = py_split sep (drop (length sep) (c # cs))"
      by simp_all
    obtain q qs where q: "py_split sep (drop (length sep) (c # cs)) = q # qs"
      using py_split_nonempty [of sep "drop (length sep) (c # cs)"] by (cases "py_split sep (drop (length sep) (c # cs))") auto
    have "drop (length sep) (c # cs) = q @ concat (map ((@) sep) qs)"
      using "2.IH"(1) [OF _ "2.prems"(1) q] True "2.prems"(1) by simp
    moreover have "c # cs = sep @ drop (length sep) (c # cs)"
      using True by (metis append_eq_conv_conj prefix_def)
    ultimately show ?thesis unfolding p0 ps q by simp
  next
    case False
    obtain q qs where q: "py_split sep cs = q # qs"
      using py_split_nonempty [of sep cs] by (cases "py_split sep cs") auto
    have "cs = q @ concat (map ((@) sep) qs)"
      using "2.IH"(2) [OF _ "2.prems"(1) q] False by simp
    moreover have "part0 = c # q" "parts = qs"
      using "2.prems"(2) False q by simp_all
    ultimately show ?thesis by simp
  qed
qed

lemma parse_station_text_eq:
  "py_split (ascii ''Stacode='') text = part0 # parts \<Longrightarrow>
   parse_station_text text
     = Inr (py_strip part0, map as_numbers (filter usable (map segment_record parts)))"
  by (simp add: parse_station_text_def stations_loop_filter)

text \<open>
  C4. For every text, the parser returns without raising: the text splits at the
  delimiter \<^verbatim>\<open>Stacode=\<close> into the header part and the segments, and the stations
  returned are exactly the usable records among the segments (all six required keys
  present, the four numeric fields parse as floats), with these four fields as floats,
  in the order of the segments; every other segment is dropped.
\<close>

theorem parse_station_text_usable_records:
  "\<exists>part0 parts. py_split (ascii ''Stacode='') text = part0 # parts
     \<and> text = part0 @ concat (map ((@) (ascii ''Stacode='')) parts)
     \<and> parse_station_text text
         = Inr (py_strip part0, map as_numbers (filter usable (map segment_record parts)))"
proof -
  obtain part0 parts where sp: "py_split (ascii ''Stacode='') text = part0 # parts"
    using py_split_nonempty [of "ascii ''Stacode=''" "text"]
    by (cases "py_split (ascii ''Stacode='') text") auto
  have ne: "ascii ''Stacode='' \<noteq> []" by (simp add: ascii_def)
  have "text = part0 @ concat (map ((@) (ascii ''Stacode='')) parts)"
    by (rule py_split_join [OF ne sp])
  with sp parse_station_text_eq [OF sp] show ?thesis by blast
qed

lemmas float_eval = py_float_def float_ascii_def c_isspace_def float_unsigned_def float_number_def
  digitpart_def c_isdigit_def float_exponent_def scale10_def digits_value_def c_tolower_def
  float_negate_def

lemma ascii_eq_iff: "ascii a = ascii b \<longleftrightarrow> a = b"
  by (simp add: ascii_def inj_map_eq_map inj_on_def)

lemmas fields_eval = ascii_def py_strip_def py_isspace_def split_first_def segment_record_def

theorem parse_station_text_usable_records_witness:
  "usable (segment_record (ascii ''S1,Stalon=1,Stalat=2,Int=3,PGA(SUM)=4,PGV(SUM)=5,''))
   \<and> \<not> usable (segment_record (ascii ''S2,Stalon=1''))
   \<and> parse_station_text
        (ascii ''H Stacode=S1,Stalon=1,Stalat=2,Int=3,PGA(SUM)=4,PGV(SUM)=5,Stacode=S2,Stalon=1'')
       = Inr (ascii ''H'',
              [[(ascii ''Stacode'', Str (ascii ''S1'')), (ascii ''Stalon'', Flt (Finite 1)),
                (ascii ''Stalat'', Flt (Finite 2)), (ascii ''Int'', Str (ascii ''3'')),
                (ascii ''PGA(SUM)'', Flt (Finite 4)), (ascii ''PGV(SUM)'', Flt (Finite 5))]])"
proof -
  let ?t = "ascii ''H Stacode=S1,Stalon=1,Stalat=2,Int=3,PGA(SUM)=4,PGV(SUM)=5,Stacode=S2,Stalon=1''"
  let ?p1 = "ascii ''S1,Stalon=1,Stalat=2,Int=3,PGA(SUM)=4,PGV(SUM)=5,''"
  let ?p2 = "ascii ''S2,Stalon=1''"
  have sp: "py_split (ascii ''Stacode='') ?t = [ascii ''H '', ?p1, ?p2]"
    by (simp add: ascii_def)
  have r1: "segment_record ?p1 =
      [(ascii ''Stacode'', Str (ascii ''S1'')), (ascii ''Stalon'', Str (ascii ''1'')),
       (ascii ''Stalat'', Str (ascii ''2'')), (ascii ''Int'', Str (ascii ''3'')),
       (ascii ''PGA(SUM)'', Str (ascii ''4'')), (ascii ''PGV(SUM)'', Str (ascii ''5''))]"
    by (simp add: fields_eval)
  have r2: "segment_record ?p2 =
      [(ascii ''Stacode'', Str (ascii ''S2'')), (ascii ''Stalon'', Str (ascii ''1''))]"
    by (simp add: fields_eval)
  have f: "py_float (ascii ''1'') = Inr (Finite 1)" "py_float (ascii ''2'') = Inr (Finite 2)"
    "py_float (ascii ''4'') = Inr (Finite 4)" "py_float (ascii ''5'') = Inr (Finite 5)"
    by (simp_all add: ascii_def float_eval)
  have u1: "usable (segment_record ?p1)"
    unfolding r1 by (simp add: usable_def has_required_def floats_parse_def required_def
        numeric_keys_def f ascii_eq_iff)
  have u2: "\<not> usable (segment_record ?p2)"
    unfolding r2 by (simp add: usable_def has_required_def required_def ascii_eq_iff)
  have n1: "as_numbers (segment_record ?p1) =
      [(ascii ''Stacode'', Str (ascii ''S1'')), (ascii ''Stalon'', Flt (Finite 1)),
       (ascii ''Stalat'', Flt (Finite 2)), (ascii ''Int'', Str (ascii ''3'')),
       (ascii ''PGA(SUM)'', Flt (Finite 4)), (ascii ''PGV(SUM)'', Flt (Finite 5))]"
    unfolding r1
    by (simp add: as_numbers_def numbers_at_def numeric_keys_def to_number_def f ascii_eq_iff)
  have h: "py_strip (ascii ''H '') = ascii ''H''"
    by (simp add: ascii_def py_strip_def py_isspace_def)
  from parse_station_text_usable_records [of ?t]
  obtain part0 parts where sp': "py_split (ascii ''Stacode='') ?t = part0 # parts"
    and res: "parse_station_text ?t
      = Inr (py_strip part0, map as_numbers (filter usable (map segment_record parts)))"
    by blast
  from sp sp' have "part0 = ascii ''H ''" and "parts = [?p1, ?p2]" by simp_all
  with res have "parse_station_text ?t = Inr (ascii ''H'', [as_numbers (segment_record ?p1)])"
    using u1 u2 h by simp
  with u1 u2 show ?thesis unfolding n1 by simp
qed

section \<open>The epicenter of the header\<close>

lemma re_search_number_Some_iff:
  "re_search_number label header \<noteq> None \<longleftrightarrow> has_number_after label header"
proof
  assume "re_search_number label header \<noteq> None"
  then show "has_number_after label header"
  proof (induction header)
    case Nil
    then show ?case by simp
  next
    case (Cons c cs)
    show ?case
    proof (cases "prefix label (c # cs)
        \<and> takeWhile is_number_char (drop (length label) (c # cs)) \<noteq> []")
      case True
      then obtain rest where r: "c # cs = label @ rest" by (auto simp: prefix_def)
      with True have "takeWhile is_number_char rest \<noteq> []" by simp
      then obtain d rest' where "rest = d # rest'" "is_number_char d"
        by (cases rest) (auto split: if_splits)
      with r have "c # cs = [] @ label @ d # rest'" by simp
      with \<open>is_number_char d\<close> show ?thesis unfolding has_number_after_def by blast
    next
      case False
      with Cons.prems have "re_search_number label cs \<noteq> None" by auto
      then have "has_number_after label cs" by (rule Cons.IH)
      then obtain before d rest where "cs = before @ label @ d # rest" "is_number_char d"
        unfolding has_number_after_def by blast
      then have "c # cs = (c # before) @ label @ d # rest" by simp
      with \<open>is_number_char d\<close> show ?thesis unfolding has_number_after_def by blast
    qed
  qed
next
  assume "has_number_after label header"
  then obtain before d rest where h: "header = before @ label @ d # rest" and d: "is_number_char d"
    unfolding has_number_after_def by blast
  show "re_search_number label header \<noteq> None"
    unfolding h
  proof (induction before)
    case Nil
    obtain x xs where x: "label @ d # rest = x # xs" by (cases "label @ d # rest") auto
    have "prefix label (x # xs)" unfolding x [symmetric] by simp
    moreover have "drop (length label) (x # xs) = d # rest" unfolding x [symmetric] by simp
    ultimately show ?case using d x by simp
  next
    case (Cons b before)
    then show ?case by simp
  qed
qed

lemma re_search_number_token:
  "re_search_number label header = Some tok \<Longrightarrow> tok \<noteq> [] \<and> (\<forall>c \<in> set tok. is_number_char c)"
proof (induction header)
  case Nil
  then show ?case by simp
next
  case (Cons c cs)
  then show ?case by (auto split: if_splits dest: set_takeWhileD)
qed


lemma float_unsigned_error: "float_unsigned s = Inl e \<Longrightarrow> e = ValueError"
  by (auto simp: float_unsigned_def split: if_splits option.splits prod.splits)

lemma py_float_error: "py_float s = Inl e \<Longrightarrow> e = ValueError"
  by (auto simp: py_float_def Let_def split: list.splits if_splits sum.splits
      dest: float_unsigned_error)

lemma unicode_decimal_low:
  "c < 1632 \<Longrightarrow> unicode_decimal c = (if 48 \<le> c \<and> c \<le> 57 then Some (c - 48) else None)"
  by (simp add: unicode_decimal_def decimal_zeros_def)

lemma is_number_char_low:
  "c < 1632 \<Longrightarrow> is_number_char c \<longleftrightarrow> (48 \<le> c \<and> c \<le> 57) \<or> c = 46"
  by (auto simp: is_number_char_def unicode_decimal_low)

lemma minus_no_number_char: "\<not> is_number_char 45"
  by (simp add: is_number_char_low)

text \<open>
  What \<^verbatim>\<open>float\<close> does with a token of digits and dots: the conversion maps every
  digit to an ASCII digit, there is no white space, sign or name to deal with, and the
  grammar accepts the token exactly when it is a float literal in the sense above.
\<close>

lemma unicode_decimal_digit: "unicode_decimal c = Some d \<Longrightarrow> d < 10"
proof -
  assume a: "unicode_decimal c = Some d"
  then obtain z where "find (\<lambda>z. z \<le> c \<and> c < z + 10) decimal_zeros = Some z" and "d = c - z"
    by (auto simp: unicode_decimal_def split: option.splits)
  then show ?thesis by (auto simp: find_Some_iff)
qed

lemma space_no_decimal: "py_isspace c \<Longrightarrow> unicode_decimal c = None"
  unfolding py_isspace_def
  by (elim disjE conjE) (simp_all add: unicode_decimal_def decimal_zeros_def)

lemma float_ascii_number_char:
  assumes "is_number_char c"
  shows "(c = 46 \<and> float_ascii c = 46) \<or> (c \<noteq> 46 \<and> c_isdigit (float_ascii c))"
proof (cases "c = 46")
  case True
  then show ?thesis by (simp add: float_ascii_def)
next
  case False
  with assms obtain d where d: "unicode_decimal c = Some d"
    by (auto simp: is_number_char_def)
  show ?thesis
  proof (cases "c < 127")
    case True
    with d show ?thesis using False
      by (auto simp: unicode_decimal_low float_ascii_def c_isdigit_def split: if_splits)
  next
    case ge: False
    from d space_no_decimal [of c] have "\<not> py_isspace c" by auto
    with ge d unicode_decimal_digit [OF d] False show ?thesis
      by (simp add: float_ascii_def c_isdigit_def)
  qed
qed


lemma digits_tail_plain:
  "\<forall>c \<in> set s. c_isdigit c \<or> c = 46 \<Longrightarrow>
   digits_tail s = (map (\<lambda>c. c - 48) (takeWhile c_isdigit s), dropWhile c_isdigit s)"
  by (induction s) auto

lemma digitpart_plain:
  "\<forall>c \<in> set s. c_isdigit c \<or> c = 46 \<Longrightarrow>
   digitpart s = (if takeWhile c_isdigit s = [] then None
                  else Some (map (\<lambda>c. c - 48) (takeWhile c_isdigit s), dropWhile c_isdigit s))"
  by (cases s) (auto simp: digitpart_def digits_tail_plain)

lemma dot_no_digit: "\<not> c_isdigit 46"
  by (simp add: c_isdigit_def)

lemma dropWhile_digit_cases:
  assumes "\<forall>c \<in> set s. c_isdigit c \<or> c = 46"
  shows "dropWhile c_isdigit s = [] \<or> (\<exists>r. dropWhile c_isdigit s = 46 # r \<and> (\<forall>c \<in> set r. c_isdigit c \<or> c = 46))"
proof (cases "dropWhile c_isdigit s")
  case Nil
  then show ?thesis by simp
next
  case (Cons x r)
  then have "\<not> c_isdigit x" by (metis hd_dropWhile list.sel(1) list.distinct(1))
  moreover have "set (x # r) \<subseteq> set s" unfolding Cons [symmetric] by (rule set_dropWhileD [THEN subsetI])
  ultimately show ?thesis using assms Cons by auto
qed

lemma float_exponent_plain: "r = [] \<or> hd r = 46 \<Longrightarrow> float_exponent r = Some (0, r)"
  by (cases r) (auto simp: float_exponent_def)


lemma dropWhile_takeWhile_Nil: "takeWhile P xs = [] \<Longrightarrow> dropWhile P xs = xs"
  by (metis append_Nil takeWhile_dropWhile_id)

lemma plain_no_name:
  assumes "\<forall>c \<in> set s. c_isdigit c \<or> c = 46"
  shows "map c_tolower s \<noteq> ascii ''inf'' \<and> map c_tolower s \<noteq> ascii ''infinity''
       \<and> map c_tolower s \<noteq> ascii ''nan''"
proof -
  have "map c_tolower s = s"
    using assms by (induction s) (auto simp: c_tolower_def c_isdigit_def)
  moreover have "\<not> (c_isdigit 105 \<or> (105::nat) = 46)" "\<not> (c_isdigit 110 \<or> (110::nat) = 46)"
    by (simp_all add: c_isdigit_def)
  ultimately show ?thesis using assms by (auto simp: ascii_def)
qed

lemma count_dot_digits: "\<forall>c \<in> set s. c_isdigit c \<Longrightarrow> count_list s 46 = 0"
  by (induction s) (auto simp: c_isdigit_def)

lemma float_token_ok_iff:
  "float_token_ok tok \<longleftrightarrow> count_list tok 46 \<le> 1 \<and> (\<exists>c. c \<in> set tok \<and> c \<noteq> 46)"
  by (auto simp: float_token_ok_def list_ex_iff)

lemma float_unsigned_plain:
  assumes plain: "\<forall>c \<in> set s. c_isdigit c \<or> c = 46" and ne: "s \<noteq> []"
  shows "(float_token_ok s \<longrightarrow> (\<exists>x. float_unsigned s = Inr (Finite x)))
       \<and> (\<not> float_token_ok s \<longrightarrow> float_unsigned s = Inl ValueError)"
proof -
  let ?ds = "takeWhile c_isdigit s"
  have split: "s = ?ds @ dropWhile c_isdigit s" by simp
  have dsd: "\<forall>c \<in> set ?ds. c_isdigit c" by (auto dest: set_takeWhileD)
  note nn = plain_no_name [OF plain]
  from dropWhile_digit_cases [OF plain] show ?thesis
  proof (elim disjE exE conjE)
    assume r: "dropWhile c_isdigit s = []"
    then have all: "\<forall>c \<in> set s. c_isdigit c" by (simp add: dropWhile_eq_Nil_conv)
    then have tk: "?ds = s" by (simp add: takeWhile_eq_all_conv)
    have ok: "float_token_ok s"
      using all ne count_dot_digits [OF all] dot_no_digit
      by (cases s) (auto simp: float_token_ok_iff)
    have "float_number s = Some (map (\<lambda>c. c - 48) s, [], [])"
      using ne by (simp add: float_number_def digitpart_plain [OF plain] tk r)
    then have "\<exists>x. float_unsigned s = Inr (Finite x)"
      using nn by (simp add: float_unsigned_def float_exponent_plain)
    with ok show ?thesis by simp
  next
    fix r assume r: "dropWhile c_isdigit s = 46 # r"
      and plain_r: "\<forall>c \<in> set r. c_isdigit c \<or> c = 46"
    let ?fs = "takeWhile c_isdigit r" and ?r2 = "dropWhile c_isdigit r"
    have s_eq: "s = ?ds @ 46 # r" using split r by simp
    have cnt: "count_list s 46 = Suc (count_list r 46)"
      by (subst s_eq) (simp add: count_dot_digits [OF dsd])
    have fn: "float_number s =
        (if ?ds = [] \<and> ?fs = [] then None
         else Some (map (\<lambda>c. c - 48) ?ds, map (\<lambda>c. c - 48) ?fs, ?r2))"
    proof (cases "?ds = []")
      case True
      with s_eq have s46: "s = 46 # r" by simp
      have "digitpart s = None" using True by (simp add: digitpart_plain [OF plain])
      then show ?thesis
        using True
        by (auto simp: float_number_def s46 digitpart_plain [OF plain_r] dropWhile_takeWhile_Nil)
    next
      case False
      then have "digitpart s = Some (map (\<lambda>c. c - 48) ?ds, 46 # r)"
        by (simp add: digitpart_plain [OF plain] r)
      then show ?thesis
        using False
        by (auto simp: float_number_def digitpart_plain [OF plain_r] dropWhile_takeWhile_Nil)
    qed
    have ex: "float_exponent ?r2 = Some (0, ?r2)"
      using dropWhile_digit_cases [OF plain_r] by (auto intro: float_exponent_plain)
    show ?thesis
    proof (cases "?r2 = []")
      case True
      then have all_r: "\<forall>c \<in> set r. c_isdigit c" by (simp add: dropWhile_eq_Nil_conv)
      then have fs: "?fs = r" by (simp add: takeWhile_eq_all_conv)
      have c0: "count_list r 46 = 0" by (rule count_dot_digits [OF all_r])
      have ok: "float_token_ok s \<longleftrightarrow> \<not> (?ds = [] \<and> r = [])"
      proof -
        have "(\<exists>c. c \<in> set s \<and> c \<noteq> 46) \<longleftrightarrow> \<not> (?ds = [] \<and> r = [])"
        proof
          assume "\<exists>c. c \<in> set s \<and> c \<noteq> 46"
          then obtain c where "c \<in> set (?ds @ 46 # r)" "c \<noteq> 46" using s_eq by metis
          then have "c \<in> set ?ds \<or> c \<in> set r" by auto
          then show "\<not> (?ds = [] \<and> r = [])" by auto
        next
          assume "\<not> (?ds = [] \<and> r = [])"
          then obtain c where c: "c \<in> set ?ds \<or> c \<in> set r"
            by (cases ?ds; cases r) auto
          with dsd all_r have "c_isdigit c" by auto
          with dot_no_digit have "c \<noteq> 46" by auto
          moreover from c have "c \<in> set (?ds @ 46 # r)" by auto
          ultimately show "\<exists>c. c \<in> set s \<and> c \<noteq> 46" using s_eq by metis
        qed
        then show ?thesis by (simp add: float_token_ok_iff cnt c0)
      qed
      have ex0: "float_exponent [] = Some (0, [])" by (simp add: float_exponent_def)
      show ?thesis
        using nn ok by (auto simp: float_unsigned_def fn ex0 True fs)
    next
      case False
      have "count_list r 46 \<noteq> 0"
      proof
        assume "count_list r 46 = 0"
        then have "46 \<notin> set r" by (simp add: count_list_0_iff)
        with plain_r have "\<forall>c \<in> set r. c_isdigit c" by auto
        with False show False by (simp add: dropWhile_eq_Nil_conv)
      qed
      then have nok: "\<not> float_token_ok s" by (simp add: float_token_ok_iff cnt)
      show ?thesis
        using nn nok False by (auto simp: float_unsigned_def fn ex)
    qed
  qed
qed


lemma float_token_ok_ascii:
  "\<forall>c \<in> set tok. is_number_char c \<Longrightarrow>
   float_token_ok (map float_ascii tok) \<longleftrightarrow> float_token_ok tok"
proof -
  assume a: "\<forall>c \<in> set tok. is_number_char c"
  then have dot: "\<And>c. c \<in> set tok \<Longrightarrow> float_ascii c = 46 \<longleftrightarrow> c = 46"
    using float_ascii_number_char dot_no_digit by metis
  have "count_list (map float_ascii tok) 46 = count_list tok 46"
    using dot by (induction tok) auto
  moreover have "(\<exists>c. c \<in> set (map float_ascii tok) \<and> c \<noteq> 46) \<longleftrightarrow> (\<exists>c. c \<in> set tok \<and> c \<noteq> 46)"
    using dot by auto
  ultimately show ?thesis by (simp add: float_token_ok_iff)
qed

lemma py_float_token:
  assumes num: "\<forall>c \<in> set tok. is_number_char c" and ne: "tok \<noteq> []"
  shows "(float_token_ok tok \<longrightarrow> (\<exists>x. py_float tok = Inr (Finite x)))
       \<and> (\<not> float_token_ok tok \<longrightarrow> py_float tok = Inl ValueError)"
proof -
  let ?s = "map float_ascii tok"
  have plain: "\<forall>c \<in> set ?s. c_isdigit c \<or> c = 46"
    using num float_ascii_number_char by auto
  then have nosp: "\<forall>c \<in> set ?s. \<not> c_isspace c"
    by (auto simp: c_isspace_def c_isdigit_def)
  have keep: "\<And>xs. \<forall>c \<in> set xs. \<not> c_isspace c \<Longrightarrow> dropWhile c_isspace xs = xs"
  proof -
    fix xs :: "nat list" assume "\<forall>c \<in> set xs. \<not> c_isspace c"
    then show "dropWhile c_isspace xs = xs" by (cases xs) auto
  qed
  have strip: "rev (dropWhile c_isspace (rev (dropWhile c_isspace ?s))) = ?s"
    using nosp by (simp add: keep)
  from ne obtain c cs where cs: "?s = c # cs" by (cases tok) auto
  with plain have "c_isdigit c \<or> c = 46" by auto
  then have nosign: "c \<noteq> 45" "c \<noteq> 43" by (auto simp: c_isdigit_def)
  have "py_float tok = float_unsigned ?s"
    unfolding py_float_def Let_def strip using nosign by (simp add: cs)
  moreover have "?s \<noteq> []" using ne by simp
  ultimately show ?thesis
    using float_unsigned_plain [OF plain] float_token_ok_ascii [OF num] by simp
qed

lemma parse_actual_epicenter_tokens:
  assumes "re_search_number (ascii ''Lon:'') header = Some a"
    and "re_search_number (ascii ''Lat:'') header = Some b"
  shows "parse_actual_epicenter header =
      (case py_float a of
         Inl e \<Rightarrow> Inl ValueError
       | Inr x \<Rightarrow> (case py_float b of Inl e \<Rightarrow> Inl ValueError | Inr y \<Rightarrow> Inr (Some (x, y))))"
  using assms
  by (auto simp: parse_actual_epicenter_def split: sum.splits dest: py_float_error)

lemma parse_actual_epicenter_None:
  "parse_actual_epicenter header = Inr None \<longleftrightarrow>
     \<not> (has_number_after (ascii ''Lon:'') header \<and> has_number_after (ascii ''Lat:'') header)"
  unfolding re_search_number_Some_iff [symmetric]
  by (auto simp: parse_actual_epicenter_def split: option.splits sum.splits)

text \<open>
  C10, as amended. \<open>parse_actual_epicenter\<close> returns \<open>None\<close> exactly when the header
  lacks \<^verbatim>\<open>Lon:\<close> or \<^verbatim>\<open>Lat:\<close> immediately followed by a digit or a dot. When both
  are there, the search yields for each label a non-empty token of digits and dots; the
  result is \<open>Some (lon, lat)\<close>, the values of the two tokens, when each token has at most
  one dot and at least one digit, and \<^verbatim>\<open>ValueError\<close> otherwise. The minus sign is no
  character of a token: the header \<^verbatim>\<open>Lon:-120.5 Lat:23.5\<close> yields \<open>None\<close>.
\<close>

theorem parse_actual_epicenter_cases:
  "(parse_actual_epicenter header = Inr None \<longleftrightarrow>
      \<not> (has_number_after (ascii ''Lon:'') header \<and> has_number_after (ascii ''Lat:'') header))
   \<and> (has_number_after (ascii ''Lon:'') header \<and> has_number_after (ascii ''Lat:'') header \<longrightarrow>
        (\<exists>a b. re_search_number (ascii ''Lon:'') header = Some a
           \<and> re_search_number (ascii ''Lat:'') header = Some b
           \<and> a \<noteq> [] \<and> b \<noteq> [] \<and> list_all is_number_char a \<and> list_all is_number_char b
           \<and> (float_token_ok a \<and> float_token_ok b \<longrightarrow>
                (\<exists>x y. py_float a = Inr (Finite x) \<and> py_float b = Inr (Finite y)
                   \<and> parse_actual_epicenter header = Inr (Some (Finite x, Finite y))))
           \<and> (\<not> (float_token_ok a \<and> float_token_ok b) \<longrightarrow>
                parse_actual_epicenter header = Inl ValueError)))
   \<and> \<not> is_number_char 45
   \<and> parse_actual_epicenter (ascii ''Lon:-120.5 Lat:23.5'') = Inr None"
proof -
  have both: "has_number_after (ascii ''Lon:'') header \<and> has_number_after (ascii ''Lat:'') header \<longrightarrow>
        (\<exists>a b. re_search_number (ascii ''Lon:'') header = Some a
           \<and> re_search_number (ascii ''Lat:'') header = Some b
           \<and> a \<noteq> [] \<and> b \<noteq> [] \<and> list_all is_number_char a \<and> list_all is_number_char b
           \<and> (float_token_ok a \<and> float_token_ok b \<longrightarrow>
                (\<exists>x y. py_float a = Inr (Finite x) \<and> py_float b = Inr (Finite y)
                   \<and> parse_actual_epicenter header = Inr (Some (Finite x, Finite y))))
           \<and> (\<not> (float_token_ok a \<and> float_token_ok b) \<longrightarrow>
                parse_actual_epicenter header = Inl ValueError))"
  proof
    assume h: "has_number_after (ascii ''Lon:'') header \<and> has_number_after (ascii ''Lat:'') header"
    then obtain a b where a: "re_search_number (ascii ''Lon:'') header = Some a"
      and b: "re_search_number (ascii ''Lat:'') header = Some b"
      unfolding re_search_number_Some_iff [symmetric] by auto
    from re_search_number_token [OF a] re_search_number_token [OF b]
    have ne: "a \<noteq> []" "b \<noteq> []"
      and num: "\<forall>c \<in> set a. is_number_char c" "\<forall>c \<in> set b. is_number_char c"
      by simp_all
    note fa = py_float_token [OF num(1) ne(1)] and fb = py_float_token [OF num(2) ne(2)]
    note p = parse_actual_epicenter_tokens [OF a b]
    have ok: "float_token_ok a \<and> float_token_ok b \<longrightarrow>
        (\<exists>x y. py_float a = Inr (Finite x) \<and> py_float b = Inr (Finite y)
           \<and> parse_actual_epicenter header = Inr (Some (Finite x, Finite y)))"
    proof
      assume "float_token_ok a \<and> float_token_ok b"
      with fa fb obtain x y where "py_float a = Inr (Finite x)" "py_float b = Inr (Finite y)"
        by blast
      then show "\<exists>x y. py_float a = Inr (Finite x) \<and> py_float b = Inr (Finite y)
           \<and> parse_actual_epicenter header = Inr (Some (Finite x, Finite y))"
        using p by simp
    qed
    have bad: "\<not> (float_token_ok a \<and> float_token_ok b) \<longrightarrow>
        parse_actual_epicenter header = Inl ValueError"
      using fa fb p by (auto split: sum.splits)
    from a b ne num ok bad show "\<exists>a b. re_search_number (ascii ''Lon:'') header = Some a
           \<and> re_search_number (ascii ''Lat:'') header = Some b
           \<and> a \<noteq> [] \<and> b \<noteq> [] \<and> list_all is_number_char a \<and> list_all is_number_char b
           \<and> (float_token_ok a \<and> float_token_ok b \<longrightarrow>
                (\<exists>x y. py_float a = Inr (Finite x) \<and> py_float b = Inr (Finite y)
                   \<and> parse_actual_epicenter header = Inr (Some (Finite x, Finite y))))
           \<and> (\<not> (float_token_ok a \<and> float_token_ok b) \<longrightarrow>
                parse_actual_epicenter header = Inl ValueError)"
      unfolding list_all_iff by blast
  qed
  have signed: "parse_actual_epicenter (ascii ''Lon:-120.5 Lat:23.5'') = Inr None"
    by (simp add: parse_actual_epicenter_def ascii_def is_number_char_low)
  show ?thesis
    using parse_actual_epicenter_None [of header] both minus_no_number_char signed by blast
qed

lemmas search_eval = ascii_def is_number_char_low

theorem parse_actual_epicenter_cases_witness:
  "has_number_after (ascii ''Lon:'') (ascii ''Lon:120.57 Lat:23.23'')
   \<and> has_number_after (ascii ''Lat:'') (ascii ''Lon:120.57 Lat:23.23'')
   \<and> float_token_ok (ascii ''120.57'') \<and> float_token_ok (ascii ''23.23'')
   \<and> parse_actual_epicenter (ascii ''Lon:120.57 Lat:23.23'')
       = Inr (Some (Finite 120.57, Finite 23.23))"
proof -
  let ?h = "ascii ''Lon:120.57 Lat:23.23''"
  have a: "re_search_number (ascii ''Lon:'') ?h = Some (ascii ''120.57'')"
    by (simp add: search_eval)
  have b: "re_search_number (ascii ''Lat:'') ?h = Some (ascii ''23.23'')"
    by (simp add: search_eval)
  have h: "has_number_after (ascii ''Lon:'') ?h \<and> has_number_after (ascii ''Lat:'') ?h"
    unfolding re_search_number_Some_iff [symmetric] a b by simp
  have ok: "float_token_ok (ascii ''120.57'')" "float_token_ok (ascii ''23.23'')"
    by (simp_all add: float_token_ok_def ascii_def)
  have f: "py_float (ascii ''120.57'') = Inr (Finite 120.57)"
    "py_float (ascii ''23.23'') = Inr (Finite 23.23)"
    by (simp_all add: ascii_def float_eval)
  from parse_actual_epicenter_cases [of ?h] h ok
  have "parse_actual_epicenter ?h = Inr (Some (Finite 120.57, Finite 23.23))"
    unfolding a b by (auto simp: f)
  with h ok show ?thesis by simp
qed

text \<open>
  C10 as stated fails: in \<^verbatim>\<open>Lon:1.2.3 Lat:23.23\<close> both labels are followed by a
  non-empty token of digits and dots, yet the result is neither \<open>Some\<close> nor \<open>None\<close>:
  \<^verbatim>\<open>float("1.2.3")\<close> raises.
\<close>

theorem parse_actual_epicenter_malformed_counterexample:
  "has_number_after (ascii ''Lon:'') (ascii ''Lon:1.2.3 Lat:23.23'')
   \<and> has_number_after (ascii ''Lat:'') (ascii ''Lon:1.2.3 Lat:23.23'')
   \<and> parse_actual_epicenter (ascii ''Lon:1.2.3 Lat:23.23'') = Inl ValueError"
proof -
  let ?h = "ascii ''Lon:1.2.3 Lat:23.23''"
  have a: "re_search_number (ascii ''Lon:'') ?h = Some (ascii ''1.2.3'')"
    by (simp add: search_eval)
  have b: "re_search_number (ascii ''Lat:'') ?h = Some (ascii ''23.23'')"
    by (simp add: search_eval)
  have h: "has_number_after (ascii ''Lon:'') ?h \<and> has_number_after (ascii ''Lat:'') ?h"
    unfolding re_search_number_Some_iff [symmetric] a b by simp
  have f: "py_float (ascii ''1.2.3'') = Inl ValueError"
    by (simp add: ascii_def float_eval)
  have "parse_actual_epicenter ?h = Inl ValueError"
    by (simp add: parse_actual_epicenter_def a b f)
  with h show ?thesis by simp
qed

section \<open>The parser scenario\<close>

text \<open>
  C7. On the scenario text the parser returns the header
  \<^verbatim>\<open>Header text Lon:120.57 Lat:23.23\<close> and exactly one station, A1, with its four
  numeric fields as floats; \<open>parse_actual_epicenter\<close> finds (120.57, 23.23) in that
  header; the segment of A2 has all six keys, but its \<^verbatim>\<open>Stalon\<close> is \<^verbatim>\<open>bad\<close>,
  which \<^verbatim>\<open>float\<close> rejects, so its conversion raises and A2 is dropped.
\<close>

theorem parser_scenario:
  "parse_station_text scenario_text =
     Inr (ascii ''Header text '' @ ascii ''Lon:120.57 Lat:23.23'',
          [[(ascii ''Stacode'', Str (ascii ''A1'')),
            (ascii ''Stalon'', Flt (Finite 121.0)),
            (ascii ''Stalat'', Flt (Finite 23.5)),
            (ascii ''Int'', Str (ascii ''4'' @ [32026])),
            (ascii ''PGA(SUM)'', Flt (Finite 12.3)),
            (ascii ''PGV(SUM)'', Flt (Finite 5.1))]])
   \<and> parse_actual_epicenter (ascii ''Header text '' @ ascii ''Lon:120.57 Lat:23.23'')
       = Inr (Some (Finite 120.57, Finite 23.23))
   \<and> segment_record (ascii ''A2,Stalon=bad,Stalat=24.0,Int=3'' @ [32026] @ ascii '',PGA(SUM)=5,PGV(SUM)=2'')
       = [(ascii ''Stacode'', Str (ascii ''A2'')),
          (ascii ''Stalon'', Str (ascii ''bad'')),
          (ascii ''Stalat'', Str (ascii ''24.0'')),
          (ascii ''Int'', Str (ascii ''3'' @ [32026])),
          (ascii ''PGA(SUM)'', Str (ascii ''5'')),
          (ascii ''PGV(SUM)'', Str (ascii ''2''))]
   \<and> py_float (ascii ''bad'') = Inl ValueError
   \<and> convert_numeric (segment_record
         (ascii ''A2,Stalon=bad,Stalat=24.0,Int=3'' @ [32026] @ ascii '',PGA(SUM)=5,PGV(SUM)=2''))
       = Inl ValueError"
proof -
  let ?p1 = "ascii ''A1,Stalon=121.0,Stalat=23.5,Int=4'' @ [32026] @ ascii '',PGA(SUM)=12.3,PGV(SUM)=5.1,''"
  let ?p2 = "ascii ''A2,Stalon=bad,Stalat=24.0,Int=3'' @ [32026] @ ascii '',PGA(SUM)=5,PGV(SUM)=2''"
  let ?h = "ascii ''Header text '' @ ascii ''Lon:120.57 Lat:23.23''"
  have sp: "py_split (ascii ''Stacode='') scenario_text = [?h @ [10], ?p1, ?p2]"
    by (simp add: scenario_text_def ascii_def)
  have h: "py_strip (?h @ [10]) = ?h"
    by (simp add: ascii_def py_strip_def py_isspace_def)
  have r1: "segment_record ?p1 =
      [(ascii ''Stacode'', Str (ascii ''A1'')), (ascii ''Stalon'', Str (ascii ''121.0'')),
       (ascii ''Stalat'', Str (ascii ''23.5'')), (ascii ''Int'', Str (ascii ''4'' @ [32026])),
       (ascii ''PGA(SUM)'', Str (ascii ''12.3'')), (ascii ''PGV(SUM)'', Str (ascii ''5.1''))]"
    by (simp add: fields_eval)
  have r2: "segment_record ?p2 =
      [(ascii ''Stacode'', Str (ascii ''A2'')), (ascii ''Stalon'', Str (ascii ''bad'')),
       (ascii ''Stalat'', Str (ascii ''24.0'')), (ascii ''Int'', Str (ascii ''3'' @ [32026])),
       (ascii ''PGA(SUM)'', Str (ascii ''5'')), (ascii ''PGV(SUM)'', Str (ascii ''2''))]"
    by (simp add: fields_eval)
  have f: "py_float (ascii ''121.0'') = Inr (Finite 121.0)"
    "py_float (ascii ''23.5'') = Inr (Finite 23.5)"
    "py_float (ascii ''12.3'') = Inr (Finite 12.3)"
    "py_float (ascii ''5.1'') = Inr (Finite 5.1)"
    "py_float (ascii ''120.57'') = Inr (Finite 120.57)"
    "py_float (ascii ''23.23'') = Inr (Finite 23.23)"
    by (simp_all add: ascii_def float_eval)
  have bad: "py_float (ascii ''bad'') = Inl ValueError"
    by (simp add: ascii_def float_eval)
  have u1: "usable (segment_record ?p1)"
    unfolding r1 by (simp add: usable_def has_required_def floats_parse_def required_def
        numeric_keys_def f ascii_eq_iff)
  have u2: "\<not> usable (segment_record ?p2)"
    unfolding r2 by (simp add: usable_def floats_parse_def numeric_keys_def bad ascii_eq_iff)
  have n1: "as_numbers (segment_record ?p1) =
      [(ascii ''Stacode'', Str (ascii ''A1'')), (ascii ''Stalon'', Flt (Finite 121.0)),
       (ascii ''Stalat'', Flt (Finite 23.5)), (ascii ''Int'', Str (ascii ''4'' @ [32026])),
       (ascii ''PGA(SUM)'', Flt (Finite 12.3)), (ascii ''PGV(SUM)'', Flt (Finite 5.1))]"
    unfolding r1
    by (simp add: as_numbers_def numbers_at_def numeric_keys_def to_number_def f ascii_eq_iff)
  have c2: "convert_numeric (segment_record ?p2) = Inl ValueError"
    unfolding r2 by (simp add: convert_numeric_def float_field_def bad ascii_eq_iff)
  have parse: "parse_station_text scenario_text = Inr (?h, [as_numbers (segment_record ?p1)])"
    using parse_station_text_eq [OF sp] u1 u2 h by simp
  have a: "re_search_number (ascii ''Lon:'') ?h = Some (ascii ''120.57'')"
    by (simp add: search_eval)
  have b: "re_search_number (ascii ''Lat:'') ?h = Some (ascii ''23.23'')"
    by (simp add: search_eval)
  have epi: "parse_actual_epicenter ?h = Inr (Some (Finite 120.57, Finite 23.23))"
    by (simp add: parse_actual_epicenter_def a b f)
  show ?thesis using parse epi r2 bad c2 unfolding n1 by simp
qed

section \<open>Reading the station file\<close>

lemma parse_station_text_returns: "\<exists>r. parse_station_text text = Inr r"
proof -
  obtain part0 parts where "py_split (ascii ''Stacode='') text = part0 # parts"
    using py_split_nonempty [of "ascii ''Stacode=''" "text"]
    by (cases "py_split (ascii ''Stacode='') text") auto
  from parse_station_text_eq [OF this] show ?thesis by blast
qed

lemma read_text_error:
  "read_text decode fs filename enc = Inl e \<Longrightarrow> e = OSError \<or> e = UnicodeDecodeError"
  by (auto simp: read_text_def split: option.splits)

lemma read_text_OSError:
  "read_text decode fs filename enc = Inl OSError \<Longrightarrow> read_text decode fs filename enc' = Inl OSError"
  by (auto simp: read_text_def split: option.splits)

text \<open>
  C8. \<open>parse_station_data\<close> reads the file as big5 first and, when that read succeeds,
  parses its text; it reads the file as cp950 if and only if the first read raised
  \<^verbatim>\<open>UnicodeDecodeError\<close> (any other error of the first read is the result); it fails
  only with an IO or decode error and only when the reads under both encodings fail, it
  does fail then, and a failure carries no header and no stations.
\<close>

theorem parse_station_data_encoding_fallback:
  "(\<forall>text. read_text decode fs filename Big5 = Inr text \<longrightarrow>
       parse_station_data decode fs filename = parse_station_text text)
   \<and> (read_text decode fs filename Big5 = Inl UnicodeDecodeError \<longrightarrow>
       parse_station_data decode fs filename =
         (case read_text decode fs filename CP950 of
            Inl e \<Rightarrow> Inl e
          | Inr text \<Rightarrow> parse_station_text text))
   \<and> (\<forall>e. read_text decode fs filename Big5 = Inl e \<and> e \<noteq> UnicodeDecodeError \<longrightarrow>
       parse_station_data decode fs filename = Inl e)
   \<and> (\<forall>e. parse_station_data decode fs filename = Inl e \<longrightarrow>
       (e = OSError \<or> e = UnicodeDecodeError)
       \<and> (\<exists>e1. read_text decode fs filename Big5 = Inl e1)
       \<and> (\<exists>e2. read_text decode fs filename CP950 = Inl e2))
   \<and> ((\<exists>e1. read_text decode fs filename Big5 = Inl e1)
        \<and> (\<exists>e2. read_text decode fs filename CP950 = Inl e2) \<longrightarrow>
       (\<exists>e. parse_station_data decode fs filename = Inl e))"
proof -
  have p1: "\<forall>text. read_text decode fs filename Big5 = Inr text \<longrightarrow>
       parse_station_data decode fs filename = parse_station_text text"
    by (simp add: parse_station_data_def)
  have p2: "read_text decode fs filename Big5 = Inl UnicodeDecodeError \<longrightarrow>
       parse_station_data decode fs filename =
         (case read_text decode fs filename CP950 of
            Inl e \<Rightarrow> Inl e
          | Inr text \<Rightarrow> parse_station_text text)"
    by (simp add: parse_station_data_def)
  have p3: "\<forall>e. read_text decode fs filename Big5 = Inl e \<and> e \<noteq> UnicodeDecodeError \<longrightarrow>
       parse_station_data decode fs filename = Inl e"
    by (simp add: parse_station_data_def)
  have p4: "\<forall>e. parse_station_data decode fs filename = Inl e \<longrightarrow>
       (e = OSError \<or> e = UnicodeDecodeError)
       \<and> (\<exists>e1. read_text decode fs filename Big5 = Inl e1)
       \<and> (\<exists>e2. read_text decode fs filename CP950 = Inl e2)"
  proof (intro allI impI)
    fix e assume f: "parse_station_data decode fs filename = Inl e"
    show "(e = OSError \<or> e = UnicodeDecodeError)
       \<and> (\<exists>e1. read_text decode fs filename Big5 = Inl e1)
       \<and> (\<exists>e2. read_text decode fs filename CP950 = Inl e2)"
    proof (cases "read_text decode fs filename Big5")
      case (Inr tx)
      with f parse_station_text_returns [of tx] show ?thesis
        by (auto simp: parse_station_data_def)
    next
      case (Inl e1)
      show ?thesis
      proof (cases "e1 = UnicodeDecodeError")
        case True
        show ?thesis
        proof (cases "read_text decode fs filename CP950")
          case (Inr tx)
          with f Inl True parse_station_text_returns [of tx] show ?thesis
            by (auto simp: parse_station_data_def)
        next
          case e2: (Inl e2)
          with f Inl True have "e = e2" by (simp add: parse_station_data_def)
          with read_text_error [OF e2] Inl e2 show ?thesis by simp
        qed
      next
        case False
        with read_text_error [OF Inl] have os: "e1 = OSError" by simp
        from f Inl False have "e = e1" by (simp add: parse_station_data_def)
        with os Inl read_text_OSError [of decode fs filename Big5 CP950] show ?thesis by simp
      qed
    qed
  qed
  have p5: "(\<exists>e1. read_text decode fs filename Big5 = Inl e1)
        \<and> (\<exists>e2. read_text decode fs filename CP950 = Inl e2) \<longrightarrow>
       (\<exists>e. parse_station_data decode fs filename = Inl e)"
    by (auto simp: parse_station_data_def)
  show ?thesis using p1 p2 p3 p4 p5 by blast
qed


theorem parse_station_data_encoding_fallback_witness:
  "read_text (\<lambda>enc b. if enc = CP950 then Some b else None) (\<lambda>n. Some (ascii ''H'')) (ascii ''f'') Big5
     = Inl UnicodeDecodeError
   \<and> read_text (\<lambda>enc b. if enc = CP950 then Some b else None) (\<lambda>n. Some (ascii ''H'')) (ascii ''f'') CP950
     = Inr (ascii ''H'')
   \<and> parse_station_data (\<lambda>enc b. if enc = CP950 then Some b else None) (\<lambda>n. Some (ascii ''H'')) (ascii ''f'')
     = Inr (ascii ''H'', [])
   \<and> read_text (\<lambda>enc b. None) (\<lambda>n. Some (ascii ''H'')) (ascii ''f'') Big5 = Inl UnicodeDecodeError
   \<and> read_text (\<lambda>enc b. None) (\<lambda>n. Some (ascii ''H'')) (ascii ''f'') CP950 = Inl UnicodeDecodeError
   \<and> parse_station_data (\<lambda>enc b. None) (\<lambda>n. Some (ascii ''H'')) (ascii ''f'') = Inl UnicodeDecodeError"
proof -
  let ?D = "\<lambda>enc b. if enc = CP950 then Some b else (None :: pystr option)"
  let ?N = "\<lambda>(enc :: encoding) (b :: nat list). (None :: pystr option)"
  let ?F = "\<lambda>n :: pystr. Some (ascii ''H'')"
  have b: "read_text ?D ?F (ascii ''f'') Big5 = Inl UnicodeDecodeError"
    by (simp add: read_text_def)
  have c: "read_text ?D ?F (ascii ''f'') CP950 = Inr (ascii ''H'')"
    by (simp add: read_text_def)
  have p: "parse_station_text (ascii ''H'') = Inr (ascii ''H'', [])"
    by (simp add: parse_station_text_def ascii_def py_strip_def py_isspace_def)
  have nb: "read_text ?N ?F (ascii ''f'') Big5 = Inl UnicodeDecodeError"
    by (simp add: read_text_def)
  have nc: "read_text ?N ?F (ascii ''f'') CP950 = Inl UnicodeDecodeError"
    by (simp add: read_text_def)
  from parse_station_data_encoding_fallback [of ?D ?F "ascii ''f''"] b c p
  have r1: "parse_station_data ?D ?F (ascii ''f'') = Inr (ascii ''H'', [])" by simp
  from parse_station_data_encoding_fallback [of ?N ?F "ascii ''f''"] nb nc
  have r2: "parse_station_data ?N ?F (ascii ''f'') = Inl UnicodeDecodeError" by simp
  show ?thesis using b c r1 nb nc r2 by blast
qed

end
